theory Spec2Isabelle
  imports
    Main
    "HOL-Library.Sublist"
    "HOL-Library.Char_ord"
    "HOL-Library.List_Lexorder"
    "HOL-Library.AList"
begin

section \<open>Library functions the handlers call\<close>

text \<open>
  Go strings are byte sequences; \<open>string\<close> (a list of 8-bit characters) models them,
  and \<open>length\<close> is Go's \<open>len\<close>. The functions of this section are not code of the
  repository: they are the parts of the Go standard library that \<open>hashPostRequest\<close>
  calls (\<open>strings.Split\<close>, \<open>url.ParseQuery\<close>, \<open>url.Values\<close>), written out from
  their Go sources so that the handler can be evaluated on concrete requests.
\<close>

subsection \<open>strings.Index, strings.Cut, strings.Split\<close>

fun strings_Index :: "string \<Rightarrow> string \<Rightarrow> nat option" where
  "strings_Index [] sep = (if sep = [] then Some 0 else None)"
| "strings_Index (c # cs) sep =
     (if prefix sep (c # cs) then Some 0 else map_option Suc (strings_Index cs sep))"

definition strings_Cut :: "string \<Rightarrow> string \<Rightarrow> string \<times> string \<times> bool" where
  "strings_Cut s sep =
     (case strings_Index s sep of
        None \<Rightarrow> (s, [], False)
      | Some i \<Rightarrow> (take i s, drop (i + length sep) s, True))"

lemma strings_Index_bound:
  "strings_Index s sep = Some m \<Longrightarrow> m + length sep \<le> length s"
  by (induction s arbitrary: m) (auto split: if_splits dest: prefix_length_le)

lemma strings_Index_drop:
  "strings_Index s sep = Some m \<Longrightarrow> sep \<noteq> [] \<Longrightarrow>
   length (drop (m + length sep) s) < length s"
  by (cases sep) (auto dest!: strings_Index_bound)

text \<open>
  \<open>strings.Split s sep\<close> cuts at every occurrence of \<open>sep\<close>, leftmost first and
  without overlap. With the empty separator Go splits after each UTF-8 sequence; the
  handlers never call it so, and the model splits after each byte there.
\<close>

function strings_Split :: "string \<Rightarrow> string \<Rightarrow> string list" where
  "strings_Split s sep =
     (if sep = [] then map (\<lambda>c. [c]) s
      else case strings_Index s sep of
             None \<Rightarrow> [s]
           | Some m \<Rightarrow> take m s # strings_Split (drop (m + length sep) s) sep)"
  by pat_completeness auto

termination
  by (relation "measure (\<lambda>(s, sep). length s)") (auto dest: strings_Index_drop)

declare strings_Split.simps [simp del]

subsection \<open>url.QueryUnescape and url.QueryEscape\<close>

datatype url_error = InvalidSemicolon | EscapeError string

definition ishex :: "char \<Rightarrow> bool" where
  "ishex c = ((CHR ''0'' \<le> c \<and> c \<le> CHR ''9'') \<or> (CHR ''a'' \<le> c \<and> c \<le> CHR ''f'')
     \<or> (CHR ''A'' \<le> c \<and> c \<le> CHR ''F''))"

definition unhex :: "char \<Rightarrow> nat" where
  "unhex c =
     (if CHR ''0'' \<le> c \<and> c \<le> CHR ''9'' then of_char c - of_char CHR ''0''
      else if CHR ''a'' \<le> c \<and> c \<le> CHR ''f'' then of_char c - of_char CHR ''a'' + 10
      else if CHR ''A'' \<le> c \<and> c \<le> CHR ''F'' then of_char c - of_char CHR ''A'' + 10
      else 0)"

text \<open>
  The first pass of Go's \<open>unescape\<close>: every \<open>%\<close> must be followed by two hex digits;
  the error carries the offending text (at most three bytes).
\<close>

fun unescape_check :: "string \<Rightarrow> url_error option" where
  "unescape_check [] = None"
| "unescape_check (c # cs) =
     (if c = CHR ''%'' then
        (case cs of
           a # b # rest \<Rightarrow>
             if ishex a \<and> ishex b then unescape_check rest
             else Some (EscapeError (take 3 (c # cs)))
         | _ \<Rightarrow> Some (EscapeError (take 3 (c # cs))))
      else unescape_check cs)"

text \<open>The second pass, in the query-component mode: \<open>%XX\<close> is one byte, \<open>+\<close> a space.\<close>

fun unescape_decode :: "string \<Rightarrow> string" where
  "unescape_decode [] = []"
| "unescape_decode (c # cs) =
     (if c = CHR ''%'' then
        (case cs of
           a # b # rest \<Rightarrow> char_of (unhex a * 16 + unhex b) # unescape_decode rest
         | _ \<Rightarrow> c # unescape_decode cs)
      else if c = CHR ''+'' then CHR '' '' # unescape_decode cs
      else c # unescape_decode cs)"

definition url_QueryUnescape :: "string \<Rightarrow> url_error + string" where
  "url_QueryUnescape s =
     (case unescape_check s of Some e \<Rightarrow> Inl e | None \<Rightarrow> Inr (unescape_decode s))"

definition shouldEscape :: "char \<Rightarrow> bool" where
  \<comment> \<open>in the mode \<open>encodeQueryComponent\<close>: letters, digits and \<open>-_.~\<close> stay\<close>
  "shouldEscape c =
     (\<not> ((CHR ''a'' \<le> c \<and> c \<le> CHR ''z'') \<or> (CHR ''A'' \<le> c \<and> c \<le> CHR ''Z'')
          \<or> (CHR ''0'' \<le> c \<and> c \<le> CHR ''9''))
      \<and> c \<notin> set ''-_.~'')"

definition upperhex :: string where
  "upperhex = ''0123456789ABCDEF''"

definition escape_byte :: "char \<Rightarrow> string" where
  "escape_byte c =
     (if shouldEscape c then
        (if c = CHR '' '' then ''+''
         else [CHR ''%'', upperhex ! (of_char c div 16), upperhex ! (of_char c mod 16)])
      else [c])"

definition url_QueryEscape :: "string \<Rightarrow> string" where
  "url_QueryEscape s = concat (map escape_byte s)"

subsection \<open>url.Values and url.ParseQuery\<close>

text \<open>
  \<open>url.Values\<close> is \<open>map[string][]string\<close>: an association list with distinct keys, read
  with \<open>map_of\<close> and written with \<open>AList.update\<close>. A Go map has no order of its own:
  \<open>Encode\<close> sorts the keys, and the order in which \<open>range\<close> yields them is a parameter
  of the model wherever the source ranges over a map.
\<close>

type_synonym url_values = "(string \<times> string list) list"

definition Values_lookup :: "url_values \<Rightarrow> string \<Rightarrow> string list" where
  \<comment> \<open>\<open>v[key]\<close>: the nil slice for a missing key\<close>
  "Values_lookup v key = (case map_of v key of None \<Rightarrow> [] | Some vs \<Rightarrow> vs)"

definition Values_Get :: "url_values \<Rightarrow> string \<Rightarrow> string" where
  "Values_Get v key = (case Values_lookup v key of [] \<Rightarrow> [] | x # _ \<Rightarrow> x)"

definition Values_Set :: "url_values \<Rightarrow> string \<Rightarrow> string \<Rightarrow> url_values" where
  "Values_Set v key val = AList.update key [val] v"

definition Values_Add :: "url_values \<Rightarrow> string \<Rightarrow> string \<Rightarrow> url_values" where
  \<comment> \<open>\<open>m[key] = append(m[key], value)\<close>\<close>
  "Values_Add v key val = AList.update key (Values_lookup v key @ [val]) v"

lemma strings_Cut_shorter:
  "(key, rest, found) = strings_Cut query ''&'' \<Longrightarrow> query \<noteq> [] \<Longrightarrow>
   length rest < length query"
  by (auto simp: strings_Cut_def split: option.splits dest: strings_Index_drop)

text \<open>
  The loop of \<open>parseQuery\<close> (Go 1.17 and later, where a semicolon is an error): it keeps
  going after an error, and returns the pairs it could parse together with the error.
\<close>

function parseQuery :: "url_values \<Rightarrow> url_error option \<Rightarrow> string \<Rightarrow> url_values \<times> url_error option" where
  "parseQuery m err query =
     (if query = [] then (m, err)
      else case strings_Cut query ''&'' of (key, rest, found) \<Rightarrow>
        if CHR '';'' \<in> set key then parseQuery m (Some InvalidSemicolon) rest
        else if key = [] then parseQuery m err rest
        else case strings_Cut key ''='' of (k, val, found') \<Rightarrow>
          (case url_QueryUnescape k of
             Inl e \<Rightarrow> parseQuery m (if err = None then Some e else err) rest
           | Inr k1 \<Rightarrow>
               (case url_QueryUnescape val of
                  Inl e \<Rightarrow> parseQuery m (if err = None then Some e else err) rest
                | Inr v1 \<Rightarrow> parseQuery (Values_Add m k1 v1) err rest)))"
  by pat_completeness auto

termination
  by (relation "measure (\<lambda>(m, err, query). length query)")
     (auto dest: strings_Cut_shorter)

declare parseQuery.simps [simp del]

definition url_ParseQuery :: "string \<Rightarrow> url_values \<times> url_error option" where
  "url_ParseQuery query = parseQuery [] None query"

text \<open>\<open>Values.Encode\<close>: the pairs \<open>key=value\<close>, escaped, joined by \<open>&\<close>, keys sorted.\<close>

fun encode_values :: "string \<Rightarrow> string list \<Rightarrow> string \<Rightarrow> string" where
  "encode_values keyEscaped [] buf = buf"
| "encode_values keyEscaped (v # vs) buf =
     encode_values keyEscaped vs
       ((if buf \<noteq> [] then buf @ ''&'' else buf) @ keyEscaped @ ''='' @ url_QueryEscape v)"

fun encode_keys :: "url_values \<Rightarrow> string list \<Rightarrow> string \<Rightarrow> string" where
  "encode_keys v [] buf = buf"
| "encode_keys v (k # keys) buf =
     encode_keys v keys (encode_values (url_QueryEscape k) (Values_lookup v k) buf)"

definition Values_Encode :: "url_values \<Rightarrow> string" where
  "Values_Encode v = (if v = [] then [] else encode_keys v (sort (map fst v)) [])"

section \<open>The redaction of oversized form fields (handler.go)\<close>

text \<open>
  \<open>c.hashStore\<close> is the redaction sink: \<open>None\<close> is the nil store, \<open>Some ls\<close> a store
  that holds the lines \<open>ls\<close> written so far. A line is the JSON object of the map
  \<open>{"field": k, "md5": md5, "content": v}\<close>, kept here as a record of its three entries.
\<close>

record redaction_entry =
  field :: string
  md5 :: string
  content :: string

type_synonym hash_store = "redaction_entry list option"

definition WriteLine :: "hash_store \<Rightarrow> redaction_entry \<Rightarrow> hash_store" where
  \<comment> \<open>the write is guarded by \<open>c.hashStore != nil\<close>\<close>
  "WriteLine hs e = (case hs of None \<Rightarrow> None | Some ls \<Rightarrow> Some (ls @ [e]))"

definition CRLFCRLF :: string where
  "CRLFCRLF = [CHR 0x0D, CHR 0x0A, CHR 0x0D, CHR 0x0A]"

text \<open>
  The body of \<open>for k, _ := range postData\<close>, over the keys in the order \<open>range\<close> yields
  them. \<open>MD5\<close> is \<open>goutil.MD5\<close>, a function of another module.
\<close>

fun hashPostRequest_loop ::
  "(string \<Rightarrow> string) \<Rightarrow> url_values \<Rightarrow> string list \<Rightarrow> url_values \<times> hash_store \<Rightarrow>
   url_values \<times> hash_store" where
  "hashPostRequest_loop MD5 postData [] (urlVal, hs) = (urlVal, hs)"
| "hashPostRequest_loop MD5 postData (k # ks) (urlVal, hs) =
     (let v = Values_Get postData k in
      if length v > 1000 then
        (let md5 = MD5 v in
         hashPostRequest_loop MD5 postData ks
           (Values_Set urlVal (''md5-'' @ k) md5,
            WriteLine hs \<lparr>field = k, md5 = md5, content = v\<rparr>))
      else hashPostRequest_loop MD5 postData ks (Values_Set urlVal k v, hs))"

text \<open>
  \<open>hashPostRequest\<close>: \<open>range_order\<close> gives the order in which \<open>range\<close> yields the keys
  of a map (any permutation of them); the result is the returned text and the store.
\<close>

definition hashPostRequest ::
  "(string \<Rightarrow> string) \<Rightarrow> (string list \<Rightarrow> string list) \<Rightarrow> hash_store \<Rightarrow> string \<Rightarrow>
   string \<times> hash_store" where
  "hashPostRequest MD5 range_order hs req =
     (let parts = strings_Split req CRLFCRLF in
      if length parts \<noteq> 2 then (req, hs)
      else case url_ParseQuery (parts ! 1) of (postData, err) \<Rightarrow>
        if err \<noteq> None then (req, hs)
        else case hashPostRequest_loop MD5 postData (range_order (map fst postData)) ([], hs) of
          (urlVal, hs') \<Rightarrow> (parts ! 0 @ CRLFCRLF @ Values_Encode urlVal, hs'))"

text \<open>
  The message \<open>DumpRequestHandler\<close> logs under its field key: \<open>dump\<close> is what
  \<open>httputil.DumpRequest(r, true)\<close> returned, the error text (\<open>Inl\<close>) or the dump.
\<close>

definition DumpRequestHandler_msg ::
  "(string \<Rightarrow> string) \<Rightarrow> (string list \<Rightarrow> string list) \<Rightarrow> hash_store \<Rightarrow> string + string \<Rightarrow>
   string \<times> hash_store" where
  "DumpRequestHandler_msg MD5 range_order hs dump =
     (case dump of
        Inl err \<Rightarrow> (err, hs)
      | Inr res \<Rightarrow> if hs = None then (res, hs) else hashPostRequest MD5 range_order hs res)"

section \<open>Requests, loggers and response writers\<close>

text \<open>
  \<open>http.Header\<close> is \<open>map[string][]string\<close>; its methods go through
  \<open>textproto.CanonicalMIMEHeaderKey\<close>, the parameter \<open>canon\<close> of the model.
\<close>

type_synonym http_header = "(string \<times> string list) list"

definition Header_Get :: "(string \<Rightarrow> string) \<Rightarrow> http_header \<Rightarrow> string \<Rightarrow> string" where
  "Header_Get canon h key =
     (case map_of h (canon key) of
        None \<Rightarrow> []
      | Some vs \<Rightarrow> (case vs of [] \<Rightarrow> [] | x # _ \<Rightarrow> x))"

definition Header_Set :: "(string \<Rightarrow> string) \<Rightarrow> http_header \<Rightarrow> string \<Rightarrow> string \<Rightarrow> http_header" where
  "Header_Set canon h key val = AList.update (canon key) [val] h"

definition Header_Del :: "(string \<Rightarrow> string) \<Rightarrow> http_header \<Rightarrow> string \<Rightarrow> http_header" where
  "Header_Del canon h key = AList.delete (canon key) h"

text \<open>
  The context of a zerolog logger: the fields added so far, in order, each with its
  type. \<open>'f\<close> stands for \<open>float64\<close>.
\<close>

datatype 'f log_value = Str string | Bool bool | Int64 int | Uint64 nat | Float64 'f

type_synonym 'f log_context = "(string \<times> 'f log_value) list"

text \<open>
  The writer the server hands to the middleware, by the contract of
  \<open>http.ResponseWriter\<close>: \<open>Header()\<close> is a map the handler may change until the status
  line goes out; the first \<open>WriteHeader\<close> sends the status and the headers as they are
  then, a later one is ignored; \<open>Write\<close> sends status 200 first if none was sent.
\<close>

record real_writer =
  rw_header :: http_header
  rw_status :: "int option"
  rw_sent_header :: http_header
  rw_body :: string

definition real_WriteHeader :: "real_writer \<Rightarrow> int \<Rightarrow> real_writer" where
  "real_WriteHeader rw code =
     (if rw_status rw \<noteq> None then rw
      else rw\<lparr>rw_status := Some code, rw_sent_header := rw_header rw\<rparr>)"

definition real_Write :: "real_writer \<Rightarrow> string \<Rightarrow> real_writer" where
  "real_Write rw b = (let rw1 = real_WriteHeader rw 200 in rw1\<lparr>rw_body := rw_body rw1 @ b\<rparr>)"

text \<open>
  Modelled from the spec: the type \<open>RespProxyWriter\<close> is not among the sources; only its
  uses in handler.go are (\<open>NewRespProxyWriter\<close>, \<open>delHeader\<close>, the fields \<open>Code\<close>, \<open>Body\<close>
  and \<open>SourceHeader\<close>). By the spec it holds the original writer, a copy of the headers
  as staged before the flush, the status code and the captured body. The model adds
  what the spec's rules need: whether a status was recorded, whether the headers were
  flushed, and the names deleted through the proxy.
\<close>

record RespProxyWriter =
  ResponseWriter :: real_writer
  Code :: int
  Body :: string
  SourceHeader :: http_header
  recorded :: bool
  flushed :: bool
  delHeaders :: "string list"

datatype response_writer = Real real_writer | Proxy RespProxyWriter

text \<open>
  Modelled from the spec: \<open>NewRespProxyWriter\<close> is not among the sources. By the spec,
  wrapping an already-proxied writer returns the existing proxy; a fresh proxy has
  recorded nothing, and its status reads 200 until \<open>WriteHeader\<close> is called.
\<close>

definition NewRespProxyWriter :: "response_writer \<Rightarrow> RespProxyWriter" where
  "NewRespProxyWriter w =
     (case w of
        Proxy p \<Rightarrow> p
      | Real rw \<Rightarrow>
          \<lparr>ResponseWriter = rw, Code = 200, Body = [], SourceHeader = [],
           recorded = False, flushed = False, delHeaders = []\<rparr>)"

text \<open>
  Modelled from the spec: \<open>delHeader\<close> is not among the sources. By the spec a header
  deleted through the proxy is deleted from the real writer's headers before they are
  sent, whatever a later handler sets; the proxy keeps the name until then.
\<close>

definition delHeader :: "RespProxyWriter \<Rightarrow> string \<Rightarrow> RespProxyWriter" where
  "delHeader p name = p\<lparr>delHeaders := delHeaders p @ [name]\<rparr>"

text \<open>
  Modelled from the spec: the flush is not among the sources. Before the first byte or
  status goes to the real writer, the proxy copies the staged headers to \<open>SourceHeader\<close>
  and applies the deletions to the real writer's headers.
\<close>

definition proxy_flush :: "(string \<Rightarrow> string) \<Rightarrow> RespProxyWriter \<Rightarrow> RespProxyWriter" where
  "proxy_flush canon p =
     (if flushed p then p
      else p\<lparr>SourceHeader := rw_header (ResponseWriter p),
             ResponseWriter := (ResponseWriter p)
               \<lparr>rw_header := fold (\<lambda>name h. Header_Del canon h name) (delHeaders p)
                               (rw_header (ResponseWriter p))\<rparr>,
             flushed := True\<rparr>)"

text \<open>
  Modelled from the spec: the method \<open>WriteHeader\<close> of the proxy is not among the
  sources. By the spec it records the code exactly once (the first call wins) and
  forwards to the real writer.
\<close>

definition proxy_WriteHeader :: "(string \<Rightarrow> string) \<Rightarrow> RespProxyWriter \<Rightarrow> int \<Rightarrow> RespProxyWriter" where
  "proxy_WriteHeader canon p code =
     (let p1 = proxy_flush canon p in
      p1\<lparr>Code := (if recorded p1 then Code p1 else code), recorded := True,
         ResponseWriter := real_WriteHeader (ResponseWriter p1) code\<rparr>)"

text \<open>
  Modelled from the spec: the method \<open>Write\<close> of the proxy is not among the sources. By
  the spec it appends the bytes to its buffer and forwards them unchanged to the real
  writer.
\<close>

definition proxy_Write :: "(string \<Rightarrow> string) \<Rightarrow> RespProxyWriter \<Rightarrow> string \<Rightarrow> RespProxyWriter" where
  "proxy_Write canon p b =
     (let p1 = proxy_flush canon p in
      p1\<lparr>Body := Body p1 @ b, ResponseWriter := real_Write (ResponseWriter p1) b\<rparr>)"

text \<open>
  What a handler can do with the writer it is given: set a header in the map that
  \<open>Header()\<close> returns (for the proxy, the map of the writer it embeds), send the
  status, write bytes.
\<close>

datatype writer_op = SetHeader string string | WriteHeader int | Write string

fun real_op :: "(string \<Rightarrow> string) \<Rightarrow> writer_op \<Rightarrow> real_writer \<Rightarrow> real_writer" where
  "real_op canon (SetHeader key val) rw = rw\<lparr>rw_header := Header_Set canon (rw_header rw) key val\<rparr>"
| "real_op canon (WriteHeader code) rw = real_WriteHeader rw code"
| "real_op canon (Write b) rw = real_Write rw b"

fun proxy_op :: "(string \<Rightarrow> string) \<Rightarrow> writer_op \<Rightarrow> RespProxyWriter \<Rightarrow> RespProxyWriter" where
  "proxy_op canon (SetHeader key val) p =
     p\<lparr>ResponseWriter := real_op canon (SetHeader key val) (ResponseWriter p)\<rparr>"
| "proxy_op canon (WriteHeader code) p = proxy_WriteHeader canon p code"
| "proxy_op canon (Write b) p = proxy_Write canon p b"

definition apply_op :: "(string \<Rightarrow> string) \<Rightarrow> writer_op \<Rightarrow> response_writer \<Rightarrow> response_writer" where
  "apply_op canon op w =
     (case w of Real rw \<Rightarrow> Real (real_op canon op rw) | Proxy p \<Rightarrow> Proxy (proxy_op canon op p))"

definition the_real :: "response_writer \<Rightarrow> real_writer" where
  "the_real w = (case w of Real rw \<Rightarrow> rw | Proxy p \<Rightarrow> ResponseWriter p)"

section \<open>The handlers of handler.go\<close>

text \<open>
  What a handler reads and changes on one request: the writer \<open>w\<close>, the headers of the
  request \<open>r\<close>, the logger in the context of \<open>r\<close> (\<open>None\<close>: no logger was installed,
  and \<open>UpdateContext\<close> does nothing), and the state of the id generator. A handler
  returns the error of \<open>ServeHTTP\<close> and the state it leaves.
\<close>

record 'f world =
  writer :: response_writer
  req_header :: http_header
  logger :: "'f log_context option"
  xid_counter :: nat

type_synonym 'f handler = "'f world \<Rightarrow> string option \<times> 'f world"

definition UpdateContext :: "('f log_context \<Rightarrow> 'f log_context) \<Rightarrow> 'f world \<Rightarrow> 'f world" where
  "UpdateContext update s = s\<lparr>logger := map_option update (logger s)\<rparr>"

text \<open>
  A stage that wraps \<open>w\<close> passes the proxy \<open>nw\<close> on. The proxy embeds \<open>w\<close>, so what the
  callee does to \<open>nw\<close> the caller sees on \<open>w\<close>: when \<open>w\<close> was the proxy itself, \<open>w\<close> is
  \<open>nw\<close> as the callee left it; otherwise \<open>w\<close> is the writer embedded in it.
\<close>

definition writer_after :: "response_writer \<Rightarrow> response_writer \<Rightarrow> response_writer" where
  "writer_after w nw' = (case w of Proxy p \<Rightarrow> nw' | Real rw \<Rightarrow> Real (the_real nw'))"

text \<open>
  \<open>IDFromRequest\<close> and \<open>RequestIDHandler\<close>. The package \<open>xid\<close> is a library: \<open>xid\<close> gives
  \<open>xid.FromString\<close> (\<open>None\<close> for its error), \<open>xid.New\<close> as a function of the generator's
  state, and \<open>ID.String\<close>. The request is never nil in the handler.
\<close>

record 'id xid_lib =
  xid_FromString :: "string \<Rightarrow> 'id option"
  xid_New :: "nat \<Rightarrow> 'id"
  xid_String :: "'id \<Rightarrow> string"

definition IDFromRequest ::
  "(string \<Rightarrow> string) \<Rightarrow> 'id xid_lib \<Rightarrow> http_header \<Rightarrow> string \<Rightarrow> 'id option" where
  "IDFromRequest canon xid r_Header headerName =
     xid_FromString xid (Header_Get canon r_Header headerName)"

definition RequestIDHandler ::
  "(string \<Rightarrow> string) \<Rightarrow> 'id xid_lib \<Rightarrow> string \<Rightarrow> string \<Rightarrow> 'f handler \<Rightarrow> 'f handler" where
  "RequestIDHandler canon xid fieldKey headerName next s =
     (let (rid, s1) =
            (case IDFromRequest canon xid (req_header s) headerName of
               Some rid \<Rightarrow> (rid, s)
             | None \<Rightarrow> (xid_New xid (xid_counter s), s\<lparr>xid_counter := Suc (xid_counter s)\<rparr>));
          s2 = (if fieldKey \<noteq> [] then
                  UpdateContext (\<lambda>c. c @ [(fieldKey, Str (xid_String xid rid))]) s1
                else s1);
          s3 = (if headerName \<noteq> [] then
                  s2\<lparr>req_header := Header_Set canon (req_header s2) headerName (xid_String xid rid)\<rparr>
                else s2)
      in next s3)"

text \<open>
  \<open>DumpResponseHandler\<close>: \<open>render\<close> stands for \<open>Header.WriteSubset\<close> followed by
  \<open>ResponseLog.DumpResponse\<close>, of the status, the body and the headers captured.
\<close>

definition DumpResponseHandler ::
  "(int \<Rightarrow> string \<Rightarrow> http_header \<Rightarrow> string) \<Rightarrow> string \<Rightarrow> 'f handler \<Rightarrow> 'f handler" where
  "DumpResponseHandler render fieldKey next s =
     (let nw = NewRespProxyWriter (writer s) in
      case next (s\<lparr>writer := Proxy nw\<rparr>) of (err, s') \<Rightarrow>
        (let nw' = NewRespProxyWriter (writer s') in
         (err, (UpdateContext
                 (\<lambda>c. c @ [(fieldKey, Str (render (Code nw') (Body nw') (SourceHeader nw')))]) s')
                 \<lparr>writer := writer_after (writer s) (writer s')\<rparr>)))"

definition DelResponseHeaderHandler :: "string \<Rightarrow> 'f handler \<Rightarrow> 'f handler" where
  "DelResponseHeaderHandler headerName next s =
     (let nw = NewRespProxyWriter (writer s);
          nw1 = delHeader nw headerName in
      case next (s\<lparr>writer := Proxy nw1\<rparr>) of (err, s') \<Rightarrow>
        (err, s'\<lparr>writer := writer_after (writer s) (writer s')\<rparr>))"

text \<open>
  \<open>ResponseHeaderHandler\<close>: \<open>strconv\<close> gives the four parsers of the package
  \<open>strconv\<close> at the base and bit size the handler passes (\<open>None\<close> for an error). A
  case of the switch that does not return falls out to the final \<open>c.Str\<close>.
\<close>

record 'f strconv_lib =
  ParseBool :: "string \<Rightarrow> bool option"
  ParseFloat :: "string \<Rightarrow> 'f option"
  ParseInt :: "string \<Rightarrow> int option"
  ParseUint :: "string \<Rightarrow> nat option"

definition typed_field ::
  "'f strconv_lib \<Rightarrow> string \<Rightarrow> string \<Rightarrow> string \<Rightarrow> (string \<times> 'f log_value) option" where
  "typed_field strconv headerName valType v =
     (if valType = ''bool'' then map_option (\<lambda>val. (headerName, Bool val)) (ParseBool strconv v)
      else if valType = ''float'' then map_option (\<lambda>val. (headerName, Float64 val)) (ParseFloat strconv v)
      else if valType = ''int'' then map_option (\<lambda>val. (headerName, Int64 val)) (ParseInt strconv v)
      else if valType = ''uint'' then map_option (\<lambda>val. (headerName, Uint64 val)) (ParseUint strconv v)
      else if valType = ''str'' then Some (headerName, Str v)
      else None)"

definition header_field ::
  "'f strconv_lib \<Rightarrow> string \<Rightarrow> string \<Rightarrow> string \<Rightarrow> string \<times> 'f log_value" where
  "header_field strconv headerName valType v =
     (case typed_field strconv headerName valType v of
        Some f \<Rightarrow> f
      | None \<Rightarrow> (headerName, Str v))"

definition ResponseHeaderHandler ::
  "(string \<Rightarrow> string) \<Rightarrow> 'f strconv_lib \<Rightarrow> string \<Rightarrow> string \<Rightarrow> 'f handler \<Rightarrow> 'f handler" where
  "ResponseHeaderHandler canon strconv headerName valType next s =
     (let nw = NewRespProxyWriter (writer s) in
      case next (s\<lparr>writer := Proxy nw\<rparr>) of (err, s') \<Rightarrow>
        (let nw' = NewRespProxyWriter (writer s');
             v = Header_Get canon (SourceHeader nw') headerName;
             s'' = (if v \<noteq> [] then
                      UpdateContext (\<lambda>c. c @ [header_field strconv headerName valType v]) s'
                    else s')
         in (err, s''\<lparr>writer := writer_after (writer s) (writer s')\<rparr>)))"

text \<open>
  A handler that only uses the writer it is given: it performs the operations \<open>ops\<close> on
  it, in order, and returns \<open>err\<close>.
\<close>

definition writes :: "(string \<Rightarrow> string) \<Rightarrow> writer_op list \<Rightarrow> string option \<Rightarrow> 'f handler" where
  "writes canon ops err s = (err, s\<lparr>writer := fold (apply_op canon) ops (writer s)\<rparr>)"

section \<open>The chain of stages (zlog.go)\<close>

text \<open>
  Modelled from the spec: the type \<open>Chain\<close> and its functions \<open>NewChain\<close>, \<open>Append\<close> and
  \<open>Then\<close> are not among the sources; zlog.go only calls them and reads the field
  \<open>hashStore\<close>. By the spec a chain is an ordered sequence of stages with an optional
  redaction store; \<open>Append\<close> returns a new chain with the stage at the tail; \<open>Then\<close>
  returns the first stage's wrapper around the second's around ... the final handler.
\<close>

record 'h Chain =
  constructors :: "('h \<Rightarrow> 'h) list"
  hashStore :: hash_store

definition NewChain :: "'h Chain" where
  "NewChain = \<lparr>constructors = [], hashStore = None\<rparr>"

definition Append :: "'h Chain \<Rightarrow> ('h \<Rightarrow> 'h) \<Rightarrow> 'h Chain" where
  "Append c stage = c\<lparr>constructors := constructors c @ [stage]\<rparr>"

definition Then :: "'h Chain \<Rightarrow> 'h \<Rightarrow> 'h" where
  "Then c h = foldr (\<lambda>stage next. stage next) (constructors c) h"


section \<open>Auxiliary notions for the statements\<close>

text \<open>
  Names for what the loop does to one field \<open>k\<close> of the parsed form: the key it is
  logged under, the value logged there, and the line written to the store; and the
  fields it logs, in the order in which it visits the keys.
\<close>

definition logged_key :: "url_values \<Rightarrow> string \<Rightarrow> string" where
  "logged_key postData k = (if length (Values_Get postData k) > 1000 then ''md5-'' @ k else k)"

definition logged_value :: "(string \<Rightarrow> string) \<Rightarrow> url_values \<Rightarrow> string \<Rightarrow> string" where
  "logged_value MD5 postData k =
     (let v = Values_Get postData k in if length v > 1000 then MD5 v else v)"

definition sink_entry :: "(string \<Rightarrow> string) \<Rightarrow> url_values \<Rightarrow> string \<Rightarrow> redaction_entry" where
  "sink_entry MD5 postData k =
     \<lparr>field = k, md5 = MD5 (Values_Get postData k), content = Values_Get postData k\<rparr>"

definition logged_fields ::
  "(string \<Rightarrow> string) \<Rightarrow> url_values \<Rightarrow> string list \<Rightarrow> (string \<times> string) list" where
  "logged_fields MD5 postData ks =
     map (\<lambda>k. (logged_key postData k, logged_value MD5 postData k)) ks"

text \<open>
  The canonical form encoding, written from its description and not from the library's
  code, for comparison with what the handler returns. Percent-encoding: letters,
  digits and \<open>-_.~\<close> stand for themselves, a space becomes \<open>+\<close>, every other byte
  becomes \<open>%\<close> and its two upper-case hex digits. The encoding of a list of fields: the
  keys in sorted order, each once, with the value given last for it; key and value
  percent-encoded and joined by \<open>=\<close>, the pairs joined by \<open>&\<close>.
\<close>

definition unreserved :: "char \<Rightarrow> bool" where
  "unreserved c =
     (c \<in> set ''ABCDEFGHIJKLMNOPQRSTUVWXYZabcdefghijklmnopqrstuvwxyz0123456789-_.~'')"

definition hex_upper :: "nat \<Rightarrow> char" where
  "hex_upper n =
     (if n < 10 then char_of (of_char CHR ''0'' + n) else char_of (of_char CHR ''A'' + (n - 10)))"

definition percent_encode_byte :: "char \<Rightarrow> string" where
  "percent_encode_byte c =
     (if unreserved c then [c]
      else if c = CHR '' '' then ''+''
      else [CHR ''%'', hex_upper (of_char c div 16), hex_upper (of_char c mod 16)])"

definition percent_encode :: "string \<Rightarrow> string" where
  "percent_encode s = concat (map percent_encode_byte s)"

fun join_amp :: "string list \<Rightarrow> string" where
  "join_amp [] = []"
| "join_amp [x] = x"
| "join_amp (x # y # ys) = x @ ''&'' @ join_amp (y # ys)"

definition last_value :: "(string \<times> string) list \<Rightarrow> string \<Rightarrow> string" where
  "last_value fs k = (case map_of (rev fs) k of None \<Rightarrow> [] | Some v \<Rightarrow> v)"

definition canonical_form_encoding :: "(string \<times> string) list \<Rightarrow> string" where
  "canonical_form_encoding fs =
     join_amp (map (\<lambda>k. percent_encode k @ ''='' @ percent_encode (last_value fs k))
                   (sort (remdups (map fst fs))))"

text \<open>The first value of a key of the parsed form.\<close>

definition first_value :: "string list \<Rightarrow> string" where
  "first_value vs = (case vs of [] \<Rightarrow> [] | v # _ \<Rightarrow> v)"


text \<open>\<open>range\<close> over a map yields every key once, in an order of its own.\<close>

definition range_yields :: "(string list \<Rightarrow> string list) \<Rightarrow> url_values \<Rightarrow> bool" where
  "range_yields range_order m =
     (distinct (range_order (map fst m)) \<and> set (range_order (map fst m)) = set (map fst m))"

text \<open>
  Two fields collide when both are logged under one key: a field \<open>md5-k\<close> with a short
  value next to a field \<open>k\<close> with a long one. The second \<open>Set\<close> wins, so the logged
  value depends on the iteration order.
\<close>

definition key_collision :: "url_values \<Rightarrow> string \<Rightarrow> bool" where
  "key_collision postData k =
     (\<exists>k'\<in>set (map fst postData). k' \<noteq> k \<and> logged_key postData k' = logged_key postData k)"

text \<open>A string that the query parser and the unescaping leave as it is.\<close>

definition plain :: "string \<Rightarrow> bool" where
  "plain s = (set s \<inter> set ''&;=%+'' = {})"

text \<open>A stand-in for \<open>goutil.MD5\<close> in the examples: 32 hex digits, whatever the input.\<close>

definition example_MD5 :: "string \<Rightarrow> string" where
  "example_MD5 v = ''0123456789abcdef0123456789abcdef''"

text \<open>The bytes a handler writes, and the status the proxy records for it.\<close>

fun written :: "writer_op list \<Rightarrow> string" where
  "written [] = []"
| "written (Write b # ops) = b @ written ops"
| "written (op # ops) = written ops"

fun first_status :: "writer_op list \<Rightarrow> int" where
  "first_status [] = 200"
| "first_status (WriteHeader code # ops) = code"
| "first_status (op # ops) = first_status ops"

definition unsent :: "response_writer \<Rightarrow> bool" where
  "unsent w =
     (case w of
        Real rw \<Rightarrow> rw_status rw = None
      | Proxy p \<Rightarrow> \<not> flushed p \<and> rw_status (ResponseWriter p) = None)"

text \<open>
  The invariant behind the deletion of a header: the proxy holds the name, it has
  flushed exactly when the real writer has sent its status, and what was sent has no
  header of that name.
\<close>

definition deletes :: "(string \<Rightarrow> string) \<Rightarrow> string \<Rightarrow> RespProxyWriter \<Rightarrow> bool" where
  "deletes canon name p =
     (canon name \<in> canon ` set (delHeaders p) \<and>
      (flushed p \<longleftrightarrow> rw_status (ResponseWriter p) \<noteq> None) \<and>
      (rw_status (ResponseWriter p) \<noteq> None \<longrightarrow>
         canon name \<notin> fst ` set (rw_sent_header (ResponseWriter p))))"

text \<open>
  A stage with code before and after the delegation: \<open>pre\<close> runs, then the next
  handler, then \<open>post\<close>.
\<close>

definition around :: "('a \<Rightarrow> 'a) \<times> ('b \<Rightarrow> 'b) \<Rightarrow> ('a \<Rightarrow> 'b) \<Rightarrow> 'a \<Rightarrow> 'b" where
  "around pp next s = snd pp (next (fst pp s))"

definition example_writer :: real_writer where
  "example_writer = \<lparr>rw_header = [], rw_status = None, rw_sent_header = [], rw_body = []\<rparr>"

definition example_world :: "(int \<times> int) world" where
  "example_world =
     \<lparr>writer = Real example_writer, req_header = [], logger = Some [], xid_counter = 0\<rparr>"

definition example_strconv :: "(int \<times> int) strconv_lib" where
  "example_strconv =
     \<lparr>ParseBool = (\<lambda>s. if s = ''true'' then Some True else if s = ''false'' then Some False else None),
      ParseFloat = (\<lambda>s. if s = ''3.14'' then Some (314, - 2) else None),
      ParseInt = (\<lambda>s. if s = ''7'' then Some 7 else None),
      ParseUint = (\<lambda>s. if s = ''7'' then Some 7 else None)\<rparr>"

definition example_xid :: "string xid_lib" where
  "example_xid =
     \<lparr>xid_FromString = (\<lambda>s. if length s = 20 then Some s else None),
      xid_New = (\<lambda>n. ''9m4e2mr0ui3e8a215n4g''),
      xid_String = (\<lambda>i. i)\<rparr>"

definition example_pipeline :: "(int \<times> int) handler" where
  "example_pipeline =
     ResponseHeaderHandler (\<lambda>k. k) example_strconv ''Cost'' ''float''
       (DumpResponseHandler (\<lambda>code body header. body) ''response''
         (writes (\<lambda>k. k) [SetHeader ''Cost'' ''3.14'', SetHeader ''Server'' ''x'', Write ''ok''] None))"

section \<open>Properties of the parser, the loop and the encoder\<close>

lemma Values_Encode_test:
  "Values_Encode [(''b'', [''x y'', ''z'']), (''a'', [''1&2''])] = ''a=1%262&b=x+y&b=z''"
  by code_simp

lemma url_ParseQuery_test:
  "url_ParseQuery ''b=x+y&a=1%262&&b=z'' = ([(''b'', [''x y'', ''z'']), (''a'', [''1&2''])], None)"
  by code_simp

lemma percent_encode_test: "percent_encode ''x/y z~'' = ''x%2Fy+z~''"
  by code_simp

subsection \<open>The library's escaping is the percent-encoding\<close>

lemma shouldEscape_chunk1:
  "list_all (\<lambda>c. shouldEscape c = (\<not> unreserved c)) (map char_of [0..<64::nat])"
  by code_simp

lemma shouldEscape_chunk2:
  "list_all (\<lambda>c. shouldEscape c = (\<not> unreserved c)) (map char_of [64..<128::nat])"
  by code_simp

lemma shouldEscape_chunk3:
  "list_all (\<lambda>c. shouldEscape c = (\<not> unreserved c)) (map char_of [128..<192::nat])"
  by code_simp

lemma shouldEscape_chunk4:
  "list_all (\<lambda>c. shouldEscape c = (\<not> unreserved c)) (map char_of [192..<256::nat])"
  by code_simp

lemma shouldEscape_unreserved: "shouldEscape c = (\<not> unreserved c)"
proof -
  have "c \<in> char_of ` {0..<256::nat}"
    using UNIV_char_of_nat by auto
  then obtain n :: nat where c: "c = char_of n" and n: "n < 256"
    by auto
  consider "n < 64" | "64 \<le> n" "n < 128" | "128 \<le> n" "n < 192" | "192 \<le> n" "n < 256"
    using n by linarith
  then show ?thesis
  proof cases
    case 1
    then have "c \<in> set (map char_of [0..<64::nat])"
      unfolding c set_map set_upt by (intro imageI) simp
    with shouldEscape_chunk1 show ?thesis by (simp only: list_all_iff)
  next
    case 2
    then have "c \<in> set (map char_of [64..<128::nat])"
      unfolding c set_map set_upt by (intro imageI) simp
    with shouldEscape_chunk2 show ?thesis by (simp only: list_all_iff)
  next
    case 3
    then have "c \<in> set (map char_of [128..<192::nat])"
      unfolding c set_map set_upt by (intro imageI) simp
    with shouldEscape_chunk3 show ?thesis by (simp only: list_all_iff)
  next
    case 4
    then have "c \<in> set (map char_of [192..<256::nat])"
      unfolding c set_map set_upt by (intro imageI) simp
    with shouldEscape_chunk4 show ?thesis by (simp only: list_all_iff)
  qed
qed

lemma upperhex_digit: "d < 16 \<Longrightarrow> upperhex ! d = hex_upper d"
proof -
  have "list_all (\<lambda>d. upperhex ! d = hex_upper d) [0..<16]"
    by code_simp
  then show "d < 16 \<Longrightarrow> upperhex ! d = hex_upper d"
    by (simp add: list_all_iff)
qed

lemma of_char_less_256: "of_char c < (256::nat)"
  using range_nat_of_char by auto

lemma escape_byte_percent: "escape_byte c = percent_encode_byte c"
proof -
  have "of_char c div 16 < (16::nat)" "of_char c mod 16 < (16::nat)"
    using of_char_less_256 [of c] by arith+
  then show ?thesis
    by (simp add: escape_byte_def percent_encode_byte_def shouldEscape_unreserved upperhex_digit)
qed

lemma url_QueryEscape_percent: "url_QueryEscape s = percent_encode s"
proof -
  have "escape_byte = percent_encode_byte"
    by (rule ext) (rule escape_byte_percent)
  then show ?thesis
    by (simp only: url_QueryEscape_def percent_encode_def)
qed

subsection \<open>The parser and the loop\<close>

lemma Values_Add_distinct: "distinct (map fst m) \<Longrightarrow> distinct (map fst (Values_Add m k v))"
  by (simp add: Values_Add_def distinct_update)

lemma parseQuery_distinct:
  "distinct (map fst m) \<Longrightarrow> distinct (map fst (fst (parseQuery m err query)))"
proof (induction m err query rule: parseQuery.induct)
  case (1 m err query)
  show ?case
    using "1.prems" "1.IH"
    by (subst parseQuery.simps)
       (auto split: prod.splits sum.splits simp: Values_Add_distinct)
qed

lemma url_ParseQuery_distinct: "distinct (map fst (fst (url_ParseQuery q)))"
  by (simp add: url_ParseQuery_def parseQuery_distinct)


lemma loop_map_of:
  "map_of (fst (hashPostRequest_loop MD5 pd ks (uv, hs))) =
   fold (\<lambda>k m. m(logged_key pd k \<mapsto> [logged_value MD5 pd k])) ks (map_of uv)"
  by (induction ks arbitrary: uv hs)
     (simp_all add: Let_def Values_Set_def update_conv' logged_key_def logged_value_def)

lemma loop_keys:
  "fst ` set (fst (hashPostRequest_loop MD5 pd ks (uv, hs))) = fst ` set uv \<union> logged_key pd ` set ks"
  by (induction ks arbitrary: uv hs)
     (auto simp: Let_def Values_Set_def dom_update logged_key_def)

lemma loop_distinct:
  "distinct (map fst uv) \<Longrightarrow> distinct (map fst (fst (hashPostRequest_loop MD5 pd ks (uv, hs))))"
  by (induction ks arbitrary: uv hs)
     (simp_all add: Let_def Values_Set_def distinct_update)

lemma loop_store:
  "snd (hashPostRequest_loop MD5 pd ks (uv, hs)) =
   (case hs of None \<Rightarrow> None
    | Some ls \<Rightarrow> Some (ls @ map (sink_entry MD5 pd) (filter (\<lambda>k. length (Values_Get pd k) > 1000) ks)))"
  by (induction ks arbitrary: uv hs)
     (auto simp: Let_def WriteLine_def sink_entry_def split: option.splits)


lemma fold_upd_map_of:
  "fold (\<lambda>k m. m(f k \<mapsto> g k)) ks m = m ++ map_of (rev (map (\<lambda>k. (f k, g k)) ks))"
proof (induction ks arbitrary: m)
  case Nil
  then show ?case by simp
next
  case (Cons k ks)
  have "fold (\<lambda>k m. m(f k \<mapsto> g k)) (k # ks) m =
        fold (\<lambda>k m. m(f k \<mapsto> g k)) ks (m(f k \<mapsto> g k))"
    by (simp only: fold_simps)
  also have "\<dots> = m(f k \<mapsto> g k) ++ map_of (rev (map (\<lambda>k. (f k, g k)) ks))"
    by (rule Cons.IH)
  also have "\<dots> = m ++ map_of (rev (map (\<lambda>k. (f k, g k)) (k # ks)))"
    by (rule ext) (simp add: map_add_def split: option.splits)
  finally show ?case .
qed

subsection \<open>The encoder\<close>

lemma join_amp_Cons: "join_amp (p # ps) = (if ps = [] then p else p @ ''&'' @ join_amp ps)"
  by (cases ps) simp_all

lemma encode_keys_single:
  "(\<forall>k\<in>set ks. \<exists>x. Values_lookup v k = [x]) \<Longrightarrow>
   encode_keys v ks buf =
     (if ks = [] then buf
      else (if buf \<noteq> [] then buf @ ''&'' else []) @
           join_amp (map (\<lambda>k. url_QueryEscape k @ ''='' @ url_QueryEscape (Values_Get v k)) ks))"
proof (induction ks arbitrary: buf)
  case Nil
  then show ?case by simp
next
  case (Cons a ks)
  from Cons.prems obtain x where x: "Values_lookup v a = [x]" by auto
  then have get: "Values_Get v a = x" by (simp add: Values_Get_def)
  from Cons.prems have rest: "\<forall>k\<in>set ks. \<exists>x. Values_lookup v k = [x]" by simp
  let ?B = "(if buf \<noteq> [] then buf @ ''&'' else buf) @ url_QueryEscape a @ ''='' @ url_QueryEscape x"
  have B: "?B \<noteq> []" by simp
  have "encode_keys v (a # ks) buf = encode_keys v ks ?B"
    by (simp add: x)
  also have "\<dots> = (if ks = [] then ?B
      else ?B @ ''&'' @
           join_amp (map (\<lambda>k. url_QueryEscape k @ ''='' @ url_QueryEscape (Values_Get v k)) ks))"
    using Cons.IH [OF rest, of ?B] B by simp
  finally show ?case
    by (simp add: join_amp_Cons get)
qed


lemma Values_Encode_single:
  assumes "\<forall>k\<in>set (map fst v). \<exists>x. Values_lookup v k = [x]"
  shows "Values_Encode v =
     join_amp (map (\<lambda>k. url_QueryEscape k @ ''='' @ url_QueryEscape (Values_Get v k))
                   (sort (map fst v)))"
proof (cases "v = []")
  case True
  then show ?thesis by (simp add: Values_Encode_def)
next
  case False
  from assms have "\<forall>k\<in>set (sort (map fst v)). \<exists>x. Values_lookup v k = [x]" by simp
  from encode_keys_single [OF this, of "[]"] False show ?thesis
    by (simp add: Values_Encode_def)
qed

lemma join_amp_sublist: "x \<in> set xs \<Longrightarrow> sublist x (join_amp xs)"
proof (induction xs rule: join_amp.induct)
  case 1
  then show ?case by simp
next
  case (2 y)
  then show ?case by simp
next
  case (3 y z zs)
  show ?case
  proof (cases "x = y")
    case True
    then show ?thesis by simp
  next
    case False
    with "3.prems" have "sublist x (join_amp (z # zs))"
      by (intro "3.IH") simp
    then obtain ps ss where "join_amp (z # zs) = ps @ x @ ss"
      by (auto simp: sublist_def)
    then have "join_amp (y # z # zs) = (y @ ''&'' @ ps) @ x @ ss"
      by simp
    then show ?thesis
      unfolding sublist_def by blast
  qed
qed

lemma canonical_form_encoding_sublist:
  assumes "a \<in> set (map fst fs)"
  shows "sublist (percent_encode a @ ''='' @ percent_encode (last_value fs a))
           (canonical_form_encoding fs)"
  unfolding canonical_form_encoding_def
  by (rule join_amp_sublist) (use assms in auto)


lemma last_value_unique:
  assumes "(a, x) \<in> set fs" and "\<forall>(a', x')\<in>set fs. a' = a \<longrightarrow> x' = x"
  shows "last_value fs a = x"
proof -
  from assms(1) have "a \<in> fst ` set (rev fs)"
    by (auto intro: rev_image_eqI)
  then obtain y where y: "map_of (rev fs) a = Some y"
    by (metis map_of_eq_None_iff not_Some_eq)
  then have "(a, y) \<in> set fs"
    by (auto dest: map_of_SomeD)
  with assms(2) have "y = x" by auto
  with y show ?thesis by (simp add: last_value_def)
qed

lemma last_value_in:
  assumes "a \<in> set (map fst fs)"
  shows "(a, last_value fs a) \<in> set fs"
proof -
  from assms have "a \<in> fst ` set (rev fs)" by simp
  then obtain y where y: "map_of (rev fs) a = Some y"
    by (metis map_of_eq_None_iff not_Some_eq)
  then have "(a, y) \<in> set fs"
    by (auto dest: map_of_SomeD)
  with y show ?thesis by (simp add: last_value_def)
qed

subsection \<open>What \<open>hashPostRequest\<close> returns\<close>

lemma hashPostRequest_unfold:
  assumes "strings_Split req CRLFCRLF = [head, body]"
    and "url_ParseQuery body = (postData, None)"
  shows "hashPostRequest MD5 range_order hs req =
     (head @ CRLFCRLF @
        Values_Encode (fst (hashPostRequest_loop MD5 postData (range_order (map fst postData)) ([], hs))),
      snd (hashPostRequest_loop MD5 postData (range_order (map fst postData)) ([], hs)))"
  using assms by (simp add: hashPostRequest_def split: prod.splits)


lemma loop_lookup:
  "map_of (fst (hashPostRequest_loop MD5 pd ks ([], hs))) a =
   map_option (\<lambda>v. [v]) (map_of (rev (logged_fields MD5 pd ks)) a)"
proof -
  have "map (\<lambda>k. (logged_key pd k, [logged_value MD5 pd k])) ks =
        map (\<lambda>(a, v). (a, [v])) (logged_fields MD5 pd ks)"
    by (simp add: logged_fields_def)
  then have "rev (map (\<lambda>k. (logged_key pd k, [logged_value MD5 pd k])) ks) =
        map (\<lambda>(a, v). (a, [v])) (rev (logged_fields MD5 pd ks))"
    by (simp add: rev_map)
  then show ?thesis
    by (simp add: loop_map_of fold_upd_map_of map_of_map)
qed

lemma loop_keys_fields:
  "set (map fst (fst (hashPostRequest_loop MD5 pd ks ([], hs)))) =
   set (map fst (logged_fields MD5 pd ks))"
  using loop_keys [of MD5 pd ks "[]" hs] by (auto simp: logged_fields_def)

lemma loop_Values_Get:
  "Values_Get (fst (hashPostRequest_loop MD5 pd ks ([], hs))) a =
   last_value (logged_fields MD5 pd ks) a"
  by (simp add: Values_Get_def Values_lookup_def last_value_def loop_lookup split: option.splits)

lemma loop_single:
  assumes "a \<in> set (map fst (fst (hashPostRequest_loop MD5 pd ks ([], hs))))"
  shows "\<exists>x. Values_lookup (fst (hashPostRequest_loop MD5 pd ks ([], hs))) a = [x]"
proof -
  from assms obtain y where "map_of (fst (hashPostRequest_loop MD5 pd ks ([], hs))) a = Some y"
    by (metis list.set_map map_of_eq_None_iff not_Some_eq)
  then show ?thesis
    by (auto simp: Values_lookup_def loop_lookup)
qed

lemma loop_Encode:
  "Values_Encode (fst (hashPostRequest_loop MD5 pd ks ([], hs))) =
   canonical_form_encoding (logged_fields MD5 pd ks)"
proof -
  let ?uv = "fst (hashPostRequest_loop MD5 pd ks ([], hs))"
  have d: "distinct (map fst ?uv)"
    by (rule loop_distinct) simp
  have keys: "sort (map fst ?uv) = sort (remdups (map fst (logged_fields MD5 pd ks)))"
    using d loop_keys_fields [of MD5 pd ks hs] by (intro sorted_distinct_set_unique) simp_all
  have "Values_Encode ?uv =
     join_amp (map (\<lambda>k. url_QueryEscape k @ ''='' @ url_QueryEscape (Values_Get ?uv k))
                   (sort (map fst ?uv)))"
    by (rule Values_Encode_single) (blast intro: loop_single)
  then show ?thesis
    by (simp only: keys loop_Values_Get url_QueryEscape_percent canonical_form_encoding_def)
qed

lemma hashPostRequest_logged:
  assumes "strings_Split req CRLFCRLF = [head, body]"
    and "url_ParseQuery body = (postData, None)"
  shows "hashPostRequest MD5 range_order hs req =
     (head @ CRLFCRLF @
        canonical_form_encoding (logged_fields MD5 postData (range_order (map fst postData))),
      case hs of
        None \<Rightarrow> None
      | Some ls \<Rightarrow>
          Some (ls @ map (sink_entry MD5 postData)
                       (filter (\<lambda>k. length (Values_Get postData k) > 1000)
                          (range_order (map fst postData)))))"
  by (simp only: hashPostRequest_unfold [OF assms] loop_Encode loop_store)

lemma Values_Get_first_value:
  "distinct (map fst pd) \<Longrightarrow> (k, vs) \<in> set pd \<Longrightarrow> Values_Get pd k = first_value vs"
  by (simp add: Values_Get_def Values_lookup_def first_value_def)




lemma DumpRequestHandler_msg_no_store:
  "DumpRequestHandler_msg MD5 range_order None (Inr res) = (res, None)"
  by (simp add: DumpRequestHandler_msg_def)

subsection \<open>Splitting and parsing strings without separators\<close>

lemma prefix_hd: "sep \<noteq> [] \<Longrightarrow> prefix sep (c # cs) \<Longrightarrow> hd sep = c"
  by (cases sep) auto

lemma strings_Index_absent: "sep \<noteq> [] \<Longrightarrow> hd sep \<notin> set s \<Longrightarrow> strings_Index s sep = None"
  by (induction s) (auto dest: prefix_hd)

lemma strings_Index_at:
  "sep \<noteq> [] \<Longrightarrow> hd sep \<notin> set h \<Longrightarrow> strings_Index (h @ sep @ b) sep = Some (length h)"
proof (induction h)
  case Nil
  then show ?case by (cases sep) simp_all
next
  case (Cons c h)
  then show ?case by (auto dest: prefix_hd)
qed

lemma strings_Split_two:
  assumes "sep \<noteq> []" and "hd sep \<notin> set h" and "hd sep \<notin> set b"
  shows "strings_Split (h @ sep @ b) sep = [h, b]"
proof -
  have "strings_Split b sep = [b]"
    using assms by (subst strings_Split.simps) (simp add: strings_Index_absent)
  then show ?thesis
    using assms by (subst strings_Split.simps) (simp add: strings_Index_at)
qed

lemma strings_Cut_absent:
  "sep \<noteq> [] \<Longrightarrow> hd sep \<notin> set s \<Longrightarrow> strings_Cut s sep = (s, [], False)"
  by (simp add: strings_Cut_def strings_Index_absent)

lemma strings_Cut_at:
  "sep \<noteq> [] \<Longrightarrow> hd sep \<notin> set h \<Longrightarrow> strings_Cut (h @ sep @ b) sep = (h, b, True)"
  by (simp add: strings_Cut_def strings_Index_at)

lemma unescape_plain:
  "CHR ''%'' \<notin> set s \<Longrightarrow> unescape_check s = None"
  "CHR ''%'' \<notin> set s \<Longrightarrow> CHR ''+'' \<notin> set s \<Longrightarrow> unescape_decode s = s"
  by (induction s) auto

lemma url_QueryUnescape_plain:
  "CHR ''%'' \<notin> set s \<Longrightarrow> CHR ''+'' \<notin> set s \<Longrightarrow> url_QueryUnescape s = Inr s"
  by (simp add: url_QueryUnescape_def unescape_plain)

lemma parseQuery_pair:
  assumes "k \<noteq> []" and "plain k" and "plain v"
  shows "parseQuery m err (k @ ''='' @ v @ ''&'' @ rest) = parseQuery (Values_Add m k v) err rest"
proof -
  have cut1: "strings_Cut ((k @ ''='' @ v) @ ''&'' @ rest) ''&'' = (k @ ''='' @ v, rest, True)"
    using assms by (intro strings_Cut_at) (auto simp: plain_def)
  have cut2: "strings_Cut (k @ ''='' @ v) ''='' = (k, v, True)"
    using assms by (intro strings_Cut_at) (auto simp: plain_def)
  have un: "url_QueryUnescape k = Inr k" "url_QueryUnescape v = Inr v"
    using assms by (auto intro!: url_QueryUnescape_plain simp: plain_def)
  have semi: "CHR '';'' \<notin> set (k @ ''='' @ v)"
    using assms by (auto simp: plain_def)
  show ?thesis
    using cut1 cut2 un semi assms(1) by (subst parseQuery.simps) simp
qed

lemma parseQuery_last:
  assumes "k \<noteq> []" and "plain k" and "plain v"
  shows "parseQuery m err (k @ ''='' @ v) = (Values_Add m k v, err)"
proof -
  have cut1: "strings_Cut (k @ ''='' @ v) ''&'' = (k @ ''='' @ v, [], False)"
    using assms by (intro strings_Cut_absent) (auto simp: plain_def)
  have cut2: "strings_Cut (k @ ''='' @ v) ''='' = (k, v, True)"
    using assms by (intro strings_Cut_at) (auto simp: plain_def)
  have un: "url_QueryUnescape k = Inr k" "url_QueryUnescape v = Inr v"
    using assms by (auto intro!: url_QueryUnescape_plain simp: plain_def)
  have semi: "CHR '';'' \<notin> set (k @ ''='' @ v)"
    using assms by (auto simp: plain_def)
  have "parseQuery (Values_Add m k v) err [] = (Values_Add m k v, err)"
    by (subst parseQuery.simps) simp
  then show ?thesis
    using cut1 cut2 un semi assms(1) by (subst parseQuery.simps) simp
qed

lemma sink_filter_field:
  "distinct ks \<Longrightarrow>
   filter (\<lambda>e. field e = k) (map (sink_entry MD5 pd) (filter P ks)) =
     (if k \<in> set ks \<and> P k then [sink_entry MD5 pd k] else [])"
  by (induction ks) (auto simp: sink_entry_def)

lemma strings_Split_three:
  assumes "sep \<noteq> []" and "hd sep \<notin> set h" and "hd sep \<notin> set b" and "hd sep \<notin> set c"
  shows "strings_Split (h @ sep @ b @ sep @ c) sep = [h, b, c]"
proof -
  have "strings_Split (b @ sep @ c) sep = [b, c]"
    using assms by (intro strings_Split_two)
  then show ?thesis
    using assms by (subst strings_Split.simps) (simp add: strings_Index_at)
qed


subsection \<open>Evaluation on requests with a long field\<close>

lemma example_split:
  "strings_Split (''POST /f HTTP/1.1'' @ CRLFCRLF @ q @ replicate 1001 CHR ''x'') CRLFCRLF =
     [''POST /f HTTP/1.1'', q @ replicate 1001 CHR ''x'']"
  if "CHR 0x0D \<notin> set q"
  using that by (intro strings_Split_two) (simp_all add: CRLFCRLF_def)

lemma example_parse_one:
  "url_ParseQuery (''k='' @ replicate 1001 CHR ''x'') = ([(''k'', [replicate 1001 CHR ''x''])], None)"
  using parseQuery_last [of "''k''" "replicate 1001 CHR ''x''" "[]" None]
  by (simp add: url_ParseQuery_def plain_def Values_Add_def Values_lookup_def)

lemma example_parse_two:
  "url_ParseQuery (''a=1&k='' @ replicate 1001 CHR ''x'') =
     ([(''a'', [''1'']), (''k'', [replicate 1001 CHR ''x''])], None)"
  using parseQuery_pair [of "''a''" "''1''" "[]" None "''k='' @ replicate 1001 CHR ''x''"]
    parseQuery_last [of "''k''" "replicate 1001 CHR ''x''" "[(''a'', [''1''])]" None]
  by (simp add: url_ParseQuery_def plain_def Values_Add_def Values_lookup_def)

lemma example_parse_collision:
  "url_ParseQuery (''md5-k=2&k='' @ replicate 1001 CHR ''x'') =
     ([(''md5-k'', [''2'']), (''k'', [replicate 1001 CHR ''x''])], None)"
  using parseQuery_pair [of "''md5-k''" "''2''" "[]" None "''k='' @ replicate 1001 CHR ''x''"]
    parseQuery_last [of "''k''" "replicate 1001 CHR ''x''" "[(''md5-k'', [''2''])]" None]
  by (simp add: url_ParseQuery_def plain_def Values_Add_def Values_lookup_def)

lemma blank_line_in_value_not_redacted:
  "url_ParseQuery (''k='' @ replicate 1001 CHR ''x'' @ CRLFCRLF @ ''z'') =
     ([(''k'', [replicate 1001 CHR ''x'' @ CRLFCRLF @ ''z''])], None)
   \<and> DumpRequestHandler_msg example_MD5 rev (Some [])
        (Inr (''POST /f HTTP/1.1'' @ CRLFCRLF @ ''k='' @ replicate 1001 CHR ''x'' @ CRLFCRLF @ ''z'')) =
      (''POST /f HTTP/1.1'' @ CRLFCRLF @ ''k='' @ replicate 1001 CHR ''x'' @ CRLFCRLF @ ''z'', Some [])"
proof -
  have parse: "url_ParseQuery (''k='' @ replicate 1001 CHR ''x'' @ CRLFCRLF @ ''z'') =
     ([(''k'', [replicate 1001 CHR ''x'' @ CRLFCRLF @ ''z''])], None)"
    using parseQuery_last [of "''k''" "replicate 1001 CHR ''x'' @ CRLFCRLF @ ''z''" "[]" None]
    by (simp add: url_ParseQuery_def plain_def Values_Add_def Values_lookup_def CRLFCRLF_def)
  have "strings_Split (''POST /f HTTP/1.1'' @ CRLFCRLF @ (''k='' @ replicate 1001 CHR ''x'') @ CRLFCRLF @ ''z'')
          CRLFCRLF = [''POST /f HTTP/1.1'', ''k='' @ replicate 1001 CHR ''x'', ''z'']"
    by (intro strings_Split_three) (simp_all add: CRLFCRLF_def)
  then have "length (strings_Split
      (''POST /f HTTP/1.1'' @ CRLFCRLF @ ''k='' @ replicate 1001 CHR ''x'' @ CRLFCRLF @ ''z'') CRLFCRLF) \<noteq> 2"
    by simp
  then have "DumpRequestHandler_msg example_MD5 rev (Some [])
        (Inr (''POST /f HTTP/1.1'' @ CRLFCRLF @ ''k='' @ replicate 1001 CHR ''x'' @ CRLFCRLF @ ''z'')) =
      (''POST /f HTTP/1.1'' @ CRLFCRLF @ ''k='' @ replicate 1001 CHR ''x'' @ CRLFCRLF @ ''z'', Some [])"
    unfolding DumpRequestHandler_msg_def hashPostRequest_def by (simp add: Let_def)
  with parse show ?thesis by (rule conjI)
qed

text \<open>
  With a collision the logged value depends on the order in which \<open>range\<close> yields the
  keys: the same request logs the hash of \<open>k\<close> under one order and the value of the
  field \<open>md5-k\<close> under the other; the store receives the line for \<open>k\<close> under both.
\<close>

lemma key_collision_depends_on_order:
  "DumpRequestHandler_msg example_MD5 id (Some [])
     (Inr (''POST /f HTTP/1.1'' @ CRLFCRLF @ ''md5-k=2&k='' @ replicate 1001 CHR ''x'')) =
   (''POST /f HTTP/1.1'' @ CRLFCRLF @ ''md5-k=0123456789abcdef0123456789abcdef'',
    Some [\<lparr>field = ''k'', md5 = ''0123456789abcdef0123456789abcdef'',
           content = replicate 1001 CHR ''x''\<rparr>])"
  "DumpRequestHandler_msg example_MD5 rev (Some [])
     (Inr (''POST /f HTTP/1.1'' @ CRLFCRLF @ ''md5-k=2&k='' @ replicate 1001 CHR ''x'')) =
   (''POST /f HTTP/1.1'' @ CRLFCRLF @ ''md5-k=2'',
    Some [\<lparr>field = ''k'', md5 = ''0123456789abcdef0123456789abcdef'',
           content = replicate 1001 CHR ''x''\<rparr>])"
proof -
  let ?v = "replicate 1001 CHR ''x''"
  let ?h = "''0123456789abcdef0123456789abcdef''"
  let ?pd = "[(''md5-k'', [''2'']), (''k'', [?v])]"
  have split: "strings_Split (''POST /f HTTP/1.1'' @ CRLFCRLF @ ''md5-k=2&k='' @ ?v) CRLFCRLF =
      [''POST /f HTTP/1.1'', ''md5-k=2&k='' @ ?v]"
    by (rule example_split) simp
  have get: "Values_Get ?pd ''k'' = ?v" "Values_Get ?pd ''md5-k'' = ''2''"
    by (simp_all add: Values_Get_def Values_lookup_def)
  have fs: "logged_fields example_MD5 ?pd [''md5-k'', ''k''] = [(''md5-k'', ''2''), (''md5-k'', ?h)]"
    "logged_fields example_MD5 ?pd [''k'', ''md5-k''] = [(''md5-k'', ?h), (''md5-k'', ''2'')]"
    by (simp_all add: logged_fields_def logged_key_def logged_value_def get example_MD5_def)
  have enc: "canonical_form_encoding [(''md5-k'', ''2''), (''md5-k'', ?h)] =
      ''md5-k=0123456789abcdef0123456789abcdef''"
    "canonical_form_encoding [(''md5-k'', ?h), (''md5-k'', ''2'')] = ''md5-k=2''"
    by code_simp+
  show "DumpRequestHandler_msg example_MD5 id (Some [])
     (Inr (''POST /f HTTP/1.1'' @ CRLFCRLF @ ''md5-k=2&k='' @ ?v)) =
   (''POST /f HTTP/1.1'' @ CRLFCRLF @ ''md5-k=0123456789abcdef0123456789abcdef'',
    Some [\<lparr>field = ''k'', md5 = ?h, content = ?v\<rparr>])"
    using hashPostRequest_logged [OF split example_parse_collision, of example_MD5 id "Some []"]
    by (simp add: DumpRequestHandler_msg_def fs enc get sink_entry_def example_MD5_def)
  show "DumpRequestHandler_msg example_MD5 rev (Some [])
     (Inr (''POST /f HTTP/1.1'' @ CRLFCRLF @ ''md5-k=2&k='' @ ?v)) =
   (''POST /f HTTP/1.1'' @ CRLFCRLF @ ''md5-k=2'',
    Some [\<lparr>field = ''k'', md5 = ?h, content = ?v\<rparr>])"
    using hashPostRequest_logged [OF split example_parse_collision, of example_MD5 rev "Some []"]
    by (simp add: DumpRequestHandler_msg_def fs enc get sink_entry_def example_MD5_def)
qed

section \<open>Properties of the writers and the handlers\<close>

lemma fold_apply_op_Proxy:
  "fold (apply_op canon) ops (Proxy p) = Proxy (fold (proxy_op canon) ops p)"
  by (induction ops arbitrary: p) (simp_all add: apply_op_def)

lemma fold_apply_op_Real:
  "fold (apply_op canon) ops (Real rw) = Real (fold (real_op canon) ops rw)"
  by (induction ops arbitrary: rw) (simp_all add: apply_op_def)

lemma NewRespProxyWriter_Proxy [simp]: "NewRespProxyWriter (Proxy p) = p"
  by (simp add: NewRespProxyWriter_def)

lemma proxy_op_Body:
  "Body (proxy_op canon op p) = Body p @ written [op]"
  by (cases op) (simp_all add: proxy_WriteHeader_def proxy_Write_def proxy_flush_def Let_def)

lemma proxy_op_rw_body:
  "rw_body (ResponseWriter (proxy_op canon op p)) = rw_body (ResponseWriter p) @ written [op]"
  by (cases op)
     (simp_all add: proxy_WriteHeader_def proxy_Write_def proxy_flush_def Let_def
        real_WriteHeader_def real_Write_def)

lemma proxy_op_Code:
  "Code (proxy_op canon op p) = (if recorded p then Code p else first_status [op, WriteHeader (Code p)])"
  "recorded (proxy_op canon op p) = (recorded p \<or> (\<exists>code. op = WriteHeader code))"
  by (cases op; simp add: proxy_WriteHeader_def proxy_Write_def proxy_flush_def Let_def)+

lemma written_Cons: "written (op # ops) = written [op] @ written ops"
  by (cases op) simp_all

lemma proxy_run_Body:
  "Body (fold (proxy_op canon) ops p) = Body p @ written ops"
proof (induction ops arbitrary: p)
  case Nil
  then show ?case by simp
next
  case (Cons op ops)
  show ?case
    by (simp add: Cons.IH proxy_op_Body) (simp add: written_Cons [of op ops])
qed

lemma proxy_run_rw_body:
  "rw_body (ResponseWriter (fold (proxy_op canon) ops p)) = rw_body (ResponseWriter p) @ written ops"
proof (induction ops arbitrary: p)
  case Nil
  then show ?case by simp
next
  case (Cons op ops)
  show ?case
    by (simp add: Cons.IH proxy_op_rw_body) (simp add: written_Cons [of op ops])
qed

lemma proxy_run_Code:
  "Code (fold (proxy_op canon) ops p) =
     (if recorded p then Code p else first_status (ops @ [WriteHeader (Code p)]))"
proof (induction ops arbitrary: p)
  case Nil
  then show ?case by simp
next
  case (Cons op ops)
  have "Code (fold (proxy_op canon) (op # ops) p) = Code (fold (proxy_op canon) ops (proxy_op canon op p))"
    by simp
  also have "\<dots> = (if recorded (proxy_op canon op p) then Code (proxy_op canon op p)
      else first_status (ops @ [WriteHeader (Code (proxy_op canon op p))]))"
    by (rule Cons.IH)
  also have "\<dots> = (if recorded p then Code p else first_status ((op # ops) @ [WriteHeader (Code p)]))"
    unfolding proxy_op_Code by (cases op) simp_all
  finally show ?case .
qed

lemma first_status_default: "first_status (ops @ [WriteHeader 200]) = first_status ops"
  by (induction ops rule: first_status.induct) simp_all

lemma Header_Del_absent: "canon name \<notin> fst ` set (Header_Del canon h name)"
  by (simp add: Header_Del_def delete_notin_dom)

lemma Header_Del_keeps_absent: "k \<notin> fst ` set h \<Longrightarrow> k \<notin> fst ` set (Header_Del canon h n)"
  using dom_delete_subset [of "canon n" h] by (auto simp: Header_Del_def)

lemma fold_Header_Del_keeps_absent:
  "k \<notin> fst ` set h \<Longrightarrow> k \<notin> fst ` set (fold (\<lambda>n h. Header_Del canon h n) names h)"
  by (induction names arbitrary: h) (simp_all add: Header_Del_keeps_absent)

lemma fold_Header_Del_absent:
  "canon name \<in> canon ` set names \<Longrightarrow>
   canon name \<notin> fst ` set (fold (\<lambda>n h. Header_Del canon h n) names h)"
proof (induction names arbitrary: h)
  case Nil
  then show ?case by simp
next
  case (Cons n names)
  show ?case
  proof (cases "canon n = canon name")
    case True
    have "canon name \<notin> fst ` set (Header_Del canon h n)"
      using Header_Del_absent [of canon n h] True by simp
    then show ?thesis
      by (simp add: fold_Header_Del_keeps_absent)
  next
    case False
    with Cons.prems have "canon name \<in> canon ` set names" by auto
    then show ?thesis
      by (simp add: Cons.IH)
  qed
qed

lemma deletes_proxy_op:
  assumes "deletes canon name p"
  shows "deletes canon name (proxy_op canon op p)"
proof (cases op)
  case (SetHeader key val)
  with assms show ?thesis by (simp add: deletes_def)
next
  case (WriteHeader code)
  with assms show ?thesis
    by (auto simp: deletes_def proxy_WriteHeader_def proxy_flush_def real_WriteHeader_def Let_def
        fold_Header_Del_absent)
next
  case (Write b)
  with assms show ?thesis
    by (auto simp: deletes_def proxy_Write_def proxy_flush_def real_Write_def real_WriteHeader_def
        Let_def fold_Header_Del_absent)
qed

lemma deletes_run:
  "deletes canon name p \<Longrightarrow> deletes canon name (fold (proxy_op canon) ops p)"
  by (induction ops arbitrary: p) (simp_all add: deletes_proxy_op)

lemma deletes_delHeader:
  "unsent w \<Longrightarrow> deletes canon name (delHeader (NewRespProxyWriter w) name)"
  by (cases w) (simp_all add: deletes_def delHeader_def NewRespProxyWriter_def unsent_def)

lemma the_real_writer_after: "the_real (writer_after w nw') = the_real nw'"
  by (cases w) (simp_all add: writer_after_def the_real_def)

lemma constructors_fold_Append:
  "constructors (fold (\<lambda>stage c. Append c stage) stages c) = constructors c @ stages"
  by (induction stages arbitrary: c) (simp_all add: Append_def)

lemma foldr_around:
  "foldr (\<lambda>stage next. stage next) (map around ps) h s =
   fold (\<lambda>post x. post x) (rev (map snd ps)) (h (fold (\<lambda>pre x. pre x) (map fst ps) s))"
  by (induction ps arbitrary: s) (simp_all add: around_def)

lemma ResponseHeaderHandler_writer:
  "writer (snd (ResponseHeaderHandler canon strconv h vt next (s\<lparr>writer := Proxy p\<rparr>))) =
   writer (snd (next (s\<lparr>writer := Proxy p\<rparr>)))"
  by (simp add: ResponseHeaderHandler_def writer_after_def UpdateContext_def Let_def
      split: prod.splits)

lemma DumpResponseHandler_writer:
  "writer (snd (DumpResponseHandler render fk next (s\<lparr>writer := Proxy p\<rparr>))) =
   writer (snd (next (s\<lparr>writer := Proxy p\<rparr>)))"
  by (simp add: DumpResponseHandler_def writer_after_def UpdateContext_def Let_def
      split: prod.splits)

lemma writes_writer: "writer (snd (writes canon ops err s)) = fold (apply_op canon) ops (writer s)"
  by (simp add: writes_def)

lemma example_run:
  "fold (proxy_op (\<lambda>k. k)) [Write ''ab'', WriteHeader 404, Write ''cd'']
     (NewRespProxyWriter (Real example_writer)) =
   \<lparr>ResponseWriter = \<lparr>rw_header = [], rw_status = Some 200, rw_sent_header = [], rw_body = ''abcd''\<rparr>,
    Code = 404, Body = ''abcd'', SourceHeader = [], recorded = True, flushed = True,
    delHeaders = []\<rparr>"
  by (simp add: NewRespProxyWriter_def example_writer_def proxy_Write_def proxy_WriteHeader_def
      proxy_flush_def real_Write_def real_WriteHeader_def Let_def)

subsection \<open>The deletion of a header\<close>

text \<open>
  What the model of the proxy gives for \<open>DelResponseHeaderHandler\<close>. When the handlers
  after it send the status line through the proxy, what is sent has no header of the
  deleted name. When they set the header and return without \<open>Write\<close> or \<open>WriteHeader\<close>,
  nothing has gone through the proxy, the header is still in the map of the real writer,
  and what the server then sends is decided outside the handlers modelled here.
\<close>

lemma DelResponseHeaderHandler_sent_header:
  assumes "unsent (writer s)"
    and "writer (snd (next (s\<lparr>writer := Proxy (delHeader (NewRespProxyWriter (writer s)) name)\<rparr>))) =
         fold (apply_op canon) ops (Proxy (delHeader (NewRespProxyWriter (writer s)) name))"
  shows "rw_status (the_real (writer (snd (DelResponseHeaderHandler name next s)))) \<noteq> None \<longrightarrow>
         canon name \<notin> fst ` set (rw_sent_header
           (the_real (writer (snd (DelResponseHeaderHandler name next s)))))"
proof -
  let ?nw = "delHeader (NewRespProxyWriter (writer s)) name"
  let ?p' = "fold (proxy_op canon) ops ?nw"
  have "the_real (writer (snd (DelResponseHeaderHandler name next s))) =
        the_real (writer (snd (next (s\<lparr>writer := Proxy ?nw\<rparr>))))"
    by (simp add: DelResponseHeaderHandler_def the_real_writer_after split: prod.splits)
  also have "\<dots> = ResponseWriter ?p'"
    by (simp add: assms(2) fold_apply_op_Proxy the_real_def)
  finally have *: "the_real (writer (snd (DelResponseHeaderHandler name next s))) = ResponseWriter ?p'" .
  have "deletes canon name ?p'"
    by (intro deletes_run deletes_delHeader assms(1))
  then show ?thesis
    unfolding * by (simp add: deletes_def)
qed

lemma DelResponseHeaderHandler_example:
  "rw_status (the_real (writer (snd (DelResponseHeaderHandler ''Cost'' example_pipeline example_world)))) =
     Some 200
   \<and> ''Cost'' \<notin> fst ` set (rw_sent_header
        (the_real (writer (snd (DelResponseHeaderHandler ''Cost'' example_pipeline example_world)))))
   \<and> logger (snd (DelResponseHeaderHandler ''Cost'' example_pipeline example_world)) =
       Some [(''response'', Str ''ok''), (''Cost'', Float64 (314, - 2))]"
proof -
  have u: "unsent (writer example_world)"
    by (simp add: unsent_def example_world_def example_writer_def)
  have ops: "writer (snd (example_pipeline
        (example_world\<lparr>writer := Proxy (delHeader (NewRespProxyWriter (writer example_world)) ''Cost'')\<rparr>))) =
      fold (apply_op (\<lambda>k. k)) [SetHeader ''Cost'' ''3.14'', SetHeader ''Server'' ''x'', Write ''ok'']
        (Proxy (delHeader (NewRespProxyWriter (writer example_world)) ''Cost''))"
    unfolding example_pipeline_def ResponseHeaderHandler_writer DumpResponseHandler_writer writes_writer
    by simp
  have run: "DelResponseHeaderHandler ''Cost'' example_pipeline example_world =
      (None, example_world
         \<lparr>writer := Real \<lparr>rw_header = [(''Server'', [''x''])], rw_status = Some 200,
                           rw_sent_header = [(''Server'', [''x''])], rw_body = ''ok''\<rparr>,
          logger := Some [(''response'', Str ''ok''), (''Cost'', Float64 (314, - 2))]\<rparr>)"
    by (simp add: DelResponseHeaderHandler_def example_pipeline_def ResponseHeaderHandler_def
        DumpResponseHandler_def writes_def example_world_def example_writer_def example_strconv_def
        NewRespProxyWriter_def delHeader_def apply_op_def proxy_Write_def proxy_WriteHeader_def
        proxy_flush_def real_Write_def real_WriteHeader_def Header_Set_def Header_Del_def
        Header_Get_def header_field_def typed_field_def UpdateContext_def writer_after_def
        the_real_def Let_def)
  from DelResponseHeaderHandler_sent_header [of example_world example_pipeline "''Cost''" "\<lambda>k. k"
      "[SetHeader ''Cost'' ''3.14'', SetHeader ''Server'' ''x'', Write ''ok'']", OF u ops]
  show ?thesis
    by (simp add: run the_real_def)
qed

lemma DelResponseHeaderHandler_no_write_example:
  "the_real (writer (snd (DelResponseHeaderHandler ''Cost''
      (writes (\<lambda>k. k) [SetHeader ''Cost'' ''3.14''] None) example_world))) =
   \<lparr>rw_header = [(''Cost'', [''3.14''])], rw_status = None, rw_sent_header = [], rw_body = []\<rparr>"
  by (simp add: DelResponseHeaderHandler_def writes_def example_world_def example_writer_def
      NewRespProxyWriter_def delHeader_def apply_op_def Header_Set_def writer_after_def
      the_real_def Let_def)

section \<open>Claims\<close>

text \<open>
  C1, as amended. With the store configured, for a dumped text that splits into exactly
  two parts at the blank line and a body that parses as a form, the request-dump stage
  logs the head, the blank line and the canonical form encoding of the fields it logs,
  and appends lines to the store. For a field \<open>k\<close> with first value \<open>v\<close>: if \<open>v\<close> is
  longer than 1000 bytes, exactly one line \<open>{field: k, md5: hash, content: v}\<close> is
  appended for \<open>k\<close>, and no logged field has \<open>v\<close> as its value (hashes being at most
  1000 bytes long); if \<open>v\<close> is at most 1000 bytes, no line is appended for \<open>k\<close>. If,
  moreover, no other field is logged under the same key as \<open>k\<close>, the logged fields
  bind \<open>md5-k\<close> to the hash of \<open>v\<close> when \<open>v\<close> is long, and \<open>k\<close> to \<open>v\<close> when it is not,
  and the logged body contains that pair, percent-encoded.
\<close>

theorem DumpRequestHandler_redaction:
  assumes sink: "hs = Some ls"
    and split: "strings_Split req CRLFCRLF = [head, body]"
    and parse: "url_ParseQuery body = (postData, None)"
    and order: "range_yields range_order postData"
    and key: "(k, vs) \<in> set postData"
    and v: "v = first_value vs"
    and fs: "fs = logged_fields MD5 postData (range_order (map fst postData))"
  shows "\<exists>new.
      DumpRequestHandler_msg MD5 range_order hs (Inr req) =
        (head @ CRLFCRLF @ canonical_form_encoding fs, Some (ls @ new)) \<and>
      (if length v > 1000 then
         filter (\<lambda>e. field e = k) new = [\<lparr>field = k, md5 = MD5 v, content = v\<rparr>] \<and>
         ((\<forall>x. length (MD5 x) \<le> 1000) \<longrightarrow> (\<forall>a\<in>set (map fst fs). last_value fs a \<noteq> v)) \<and>
         (\<not> key_collision postData k \<longrightarrow>
            last_value fs (''md5-'' @ k) = MD5 v \<and>
            sublist (percent_encode (''md5-'' @ k) @ ''='' @ percent_encode (MD5 v))
              (canonical_form_encoding fs))
       else
         filter (\<lambda>e. field e = k) new = [] \<and>
         (\<not> key_collision postData k \<longrightarrow>
            last_value fs k = v \<and>
            sublist (percent_encode k @ ''='' @ percent_encode v) (canonical_form_encoding fs)))"
proof -
  let ?ks = "range_order (map fst postData)"
  let ?new = "map (sink_entry MD5 postData) (filter (\<lambda>k. length (Values_Get postData k) > 1000) ?ks)"
  have dist: "distinct (map fst postData)"
    using url_ParseQuery_distinct [of body] parse by simp
  have get: "Values_Get postData k = v"
    using Values_Get_first_value [OF dist key] v by simp
  from order have ks: "set ?ks = set (map fst postData)" and dks: "distinct ?ks"
    by (simp_all add: range_yields_def)
  have k_in: "k \<in> set ?ks"
    using key ks by force
  have msg: "DumpRequestHandler_msg MD5 range_order hs (Inr req) =
      (head @ CRLFCRLF @ canonical_form_encoding fs, Some (ls @ ?new))"
    using sink by (simp add: DumpRequestHandler_msg_def hashPostRequest_logged [OF split parse] fs)
  have entries: "filter (\<lambda>e. field e = k) ?new =
      (if length v > 1000 then [\<lparr>field = k, md5 = MD5 v, content = v\<rparr>] else [])"
    using sink_filter_field [OF dks, of k MD5 postData "\<lambda>k. length (Values_Get postData k) > 1000"] k_in
    by (simp add: get sink_entry_def)
  have raw: "\<forall>a\<in>set (map fst fs). last_value fs a \<noteq> v"
    if hash_len: "\<forall>x. length (MD5 x) \<le> 1000" and long: "length v > 1000"
  proof
    fix a
    assume "a \<in> set (map fst fs)"
    then have "(a, last_value fs a) \<in> set fs"
      by (rule last_value_in)
    then obtain k' where "last_value fs a = logged_value MD5 postData k'"
      by (auto simp: fs logged_fields_def)
    then have "length (last_value fs a) \<le> 1000"
      using hash_len by (simp add: logged_value_def Let_def)
    with long show "last_value fs a \<noteq> v" by auto
  qed
  have bound: "last_value fs (logged_key postData k) = logged_value MD5 postData k \<and>
      sublist (percent_encode (logged_key postData k) @ ''='' @
               percent_encode (logged_value MD5 postData k)) (canonical_form_encoding fs)"
    if no_collision: "\<not> key_collision postData k"
  proof -
    have uniq: "\<forall>k'\<in>set ?ks. logged_key postData k' = logged_key postData k \<longrightarrow> k' = k"
      using no_collision ks unfolding key_collision_def by blast
    have mem: "(logged_key postData k, logged_value MD5 postData k) \<in> set fs"
      using k_in by (force simp: fs logged_fields_def)
    have "\<forall>(a', x')\<in>set fs. a' = logged_key postData k \<longrightarrow> x' = logged_value MD5 postData k"
      using uniq by (auto simp: fs logged_fields_def)
    with mem have last: "last_value fs (logged_key postData k) = logged_value MD5 postData k"
      by (rule last_value_unique)
    from mem have "logged_key postData k \<in> set (map fst fs)"
      by force
    from canonical_form_encoding_sublist [OF this] last show ?thesis
      by simp
  qed
  show ?thesis
  proof (cases "length v > 1000")
    case True
    then have "logged_key postData k = ''md5-'' @ k" "logged_value MD5 postData k = MD5 v"
      by (simp_all add: logged_key_def logged_value_def get)
    with bound entries raw True msg show ?thesis
      by (intro exI [of _ ?new]) simp
  next
    case False
    then have "logged_key postData k = k" "logged_value MD5 postData k = v"
      by (simp_all add: logged_key_def logged_value_def get)
    with bound entries False msg show ?thesis
      by (intro exI [of _ ?new]) simp
  qed
qed

theorem DumpRequestHandler_redaction_witness:
  "\<exists>new.
     DumpRequestHandler_msg example_MD5 rev (Some [])
       (Inr (''POST /f HTTP/1.1'' @ CRLFCRLF @ ''a=1&k='' @ replicate 1001 CHR ''x'')) =
     (''POST /f HTTP/1.1'' @ CRLFCRLF @ ''a=1&md5-k=0123456789abcdef0123456789abcdef'', Some new) \<and>
     filter (\<lambda>e. field e = ''k'') new =
       [\<lparr>field = ''k'', md5 = ''0123456789abcdef0123456789abcdef'',
         content = replicate 1001 CHR ''x''\<rparr>] \<and>
     sublist ''md5-k=0123456789abcdef0123456789abcdef''
       ''a=1&md5-k=0123456789abcdef0123456789abcdef'' \<and>
     last_value [(''md5-k'', ''0123456789abcdef0123456789abcdef''), (''a'', ''1'')] ''a'' \<noteq>
       replicate 1001 CHR ''x''"
proof -
  let ?v = "replicate 1001 CHR ''x''"
  let ?h = "''0123456789abcdef0123456789abcdef''"
  let ?pd = "[(''a'', [''1'']), (''k'', [?v])]"
  let ?fs = "[(''md5-k'', ?h), (''a'', ''1'')]"
  have split: "strings_Split (''POST /f HTTP/1.1'' @ CRLFCRLF @ ''a=1&k='' @ ?v) CRLFCRLF =
      [''POST /f HTTP/1.1'', ''a=1&k='' @ ?v]"
    by (rule example_split) simp
  have order: "range_yields rev ?pd"
    by (auto simp: range_yields_def)
  have key: "(''k'', [?v]) \<in> set ?pd"
    by simp
  have v: "?v = first_value [?v]"
    by (simp add: first_value_def)
  have get: "Values_Get ?pd ''k'' = ?v" "Values_Get ?pd ''a'' = ''1''"
    by (simp_all add: Values_Get_def Values_lookup_def)
  have fs: "?fs = logged_fields example_MD5 ?pd (rev (map fst ?pd))"
    by (simp add: logged_fields_def logged_key_def logged_value_def get example_MD5_def)
  have no_collision: "\<not> key_collision ?pd ''k''"
    by (simp add: key_collision_def logged_key_def get)
  have hash_len: "\<forall>x. length (example_MD5 x) \<le> 1000"
    by (simp add: example_MD5_def)
  have long: "length ?v > 1000"
    by simp
  have enc: "canonical_form_encoding ?fs = ''a=1&md5-k=0123456789abcdef0123456789abcdef''"
    "percent_encode ''md5-k'' = ''md5-k''" "percent_encode ?h = ?h"
    by code_simp+
  from DumpRequestHandler_redaction [where ls = "[]", OF refl split example_parse_two order key v fs]
  obtain new where
    msg: "DumpRequestHandler_msg example_MD5 rev (Some [])
        (Inr (''POST /f HTTP/1.1'' @ CRLFCRLF @ ''a=1&k='' @ ?v)) =
      (''POST /f HTTP/1.1'' @ CRLFCRLF @ canonical_form_encoding ?fs, Some ([] @ new))"
    and entry: "filter (\<lambda>e. field e = ''k'') new =
      [\<lparr>field = ''k'', md5 = example_MD5 ?v, content = ?v\<rparr>]"
    and raw: "\<forall>a\<in>set (map fst ?fs). last_value ?fs a \<noteq> ?v"
    and shown: "sublist (percent_encode (''md5-'' @ ''k'') @ ''='' @ percent_encode (example_MD5 ?v))
        (canonical_form_encoding ?fs)"
    using long hash_len no_collision by auto
  from msg have "DumpRequestHandler_msg example_MD5 rev (Some [])
        (Inr (''POST /f HTTP/1.1'' @ CRLFCRLF @ ''a=1&k='' @ ?v)) =
      (''POST /f HTTP/1.1'' @ CRLFCRLF @ ''a=1&md5-k=0123456789abcdef0123456789abcdef'', Some new)"
    unfolding enc by simp
  moreover from entry have "filter (\<lambda>e. field e = ''k'') new =
      [\<lparr>field = ''k'', md5 = ?h, content = ?v\<rparr>]"
    by (simp add: example_MD5_def)
  moreover from shown have "sublist ''md5-k=0123456789abcdef0123456789abcdef''
       ''a=1&md5-k=0123456789abcdef0123456789abcdef''"
    by (simp add: enc example_MD5_def)
  moreover from raw have "last_value ?fs ''a'' \<noteq> ?v"
    by simp
  ultimately show ?thesis
    by blast
qed

text \<open>
  The claim as first stated fails in three ways that the code intends or allows. Without
  a store \<open>DumpRequestHandler\<close> logs the dump as it is, and a field of 1001 bytes
  appears in full. With a store, a body that parses as a form and holds a blank line
  makes the dump split in three parts: it is logged as it is, the long value included,
  and nothing is written to the store. With a store, two parts and a body that parses,
  a short field \<open>md5-k\<close> next to a long field \<open>k\<close> is logged in place of the hash when
  \<open>range\<close> yields it last.
\<close>

theorem DumpRequestHandler_redaction_counterexample:
  "(url_ParseQuery (''k='' @ replicate 1001 CHR ''x'') = ([(''k'', [replicate 1001 CHR ''x''])], None)
    \<and> length (first_value [replicate 1001 CHR ''x'']) > 1000
    \<and> DumpRequestHandler_msg example_MD5 rev None
         (Inr (''POST /f HTTP/1.1'' @ CRLFCRLF @ ''k='' @ replicate 1001 CHR ''x'')) =
       (''POST /f HTTP/1.1'' @ CRLFCRLF @ ''k='' @ replicate 1001 CHR ''x'', None))
   \<and> (url_ParseQuery (''k='' @ replicate 1001 CHR ''x'' @ CRLFCRLF @ ''z'') =
       ([(''k'', [replicate 1001 CHR ''x'' @ CRLFCRLF @ ''z''])], None)
    \<and> length (first_value [replicate 1001 CHR ''x'' @ CRLFCRLF @ ''z'']) > 1000
    \<and> DumpRequestHandler_msg example_MD5 rev (Some [])
         (Inr (''POST /f HTTP/1.1'' @ CRLFCRLF @ ''k='' @ replicate 1001 CHR ''x'' @ CRLFCRLF @ ''z'')) =
       (''POST /f HTTP/1.1'' @ CRLFCRLF @ ''k='' @ replicate 1001 CHR ''x'' @ CRLFCRLF @ ''z'', Some []))
   \<and> (strings_Split (''POST /f HTTP/1.1'' @ CRLFCRLF @ ''md5-k=2&k='' @ replicate 1001 CHR ''x'') CRLFCRLF =
       [''POST /f HTTP/1.1'', ''md5-k=2&k='' @ replicate 1001 CHR ''x'']
    \<and> url_ParseQuery (''md5-k=2&k='' @ replicate 1001 CHR ''x'') =
       ([(''md5-k'', [''2'']), (''k'', [replicate 1001 CHR ''x''])], None)
    \<and> range_yields rev [(''md5-k'', [''2'']), (''k'', [replicate 1001 CHR ''x''])]
    \<and> fst (DumpRequestHandler_msg example_MD5 rev (Some [])
         (Inr (''POST /f HTTP/1.1'' @ CRLFCRLF @ ''md5-k=2&k='' @ replicate 1001 CHR ''x''))) =
       ''POST /f HTTP/1.1'' @ CRLFCRLF @ ''md5-k=2''
    \<and> \<not> sublist (''md5-k='' @ example_MD5 (replicate 1001 CHR ''x''))
         (fst (DumpRequestHandler_msg example_MD5 rev (Some [])
           (Inr (''POST /f HTTP/1.1'' @ CRLFCRLF @ ''md5-k=2&k='' @ replicate 1001 CHR ''x'')))))"
proof -
  have "length (first_value [replicate 1001 CHR ''x'']) > 1000"
    and "length (first_value [replicate 1001 CHR ''x'' @ CRLFCRLF @ ''z'']) > 1000"
    by (simp_all add: first_value_def)
  moreover have "strings_Split (''POST /f HTTP/1.1'' @ CRLFCRLF @ ''md5-k=2&k='' @ replicate 1001 CHR ''x'')
      CRLFCRLF = [''POST /f HTTP/1.1'', ''md5-k=2&k='' @ replicate 1001 CHR ''x'']"
    by (rule example_split) simp
  moreover have "range_yields rev [(''md5-k'', [''2'']), (''k'', [replicate 1001 CHR ''x''])]"
    by (auto simp: range_yields_def)
  moreover have "fst (DumpRequestHandler_msg example_MD5 rev (Some [])
         (Inr (''POST /f HTTP/1.1'' @ CRLFCRLF @ ''md5-k=2&k='' @ replicate 1001 CHR ''x''))) =
       ''POST /f HTTP/1.1'' @ CRLFCRLF @ ''md5-k=2''"
    by (simp only: key_collision_depends_on_order(2) fst_conv)
  moreover have "\<not> sublist (''md5-k='' @ example_MD5 (replicate 1001 CHR ''x''))
         (fst (DumpRequestHandler_msg example_MD5 rev (Some [])
           (Inr (''POST /f HTTP/1.1'' @ CRLFCRLF @ ''md5-k=2&k='' @ replicate 1001 CHR ''x''))))"
    unfolding key_collision_depends_on_order(2) fst_conv example_MD5_def by code_simp
  ultimately show ?thesis
    using example_parse_one example_parse_collision blank_line_in_value_not_redacted
      DumpRequestHandler_msg_no_store [of example_MD5 rev
        "''POST /f HTTP/1.1'' @ CRLFCRLF @ ''k='' @ replicate 1001 CHR ''x''"]
    by blast
qed

text \<open>
  C2. A handler that performs any sequence of operations on the proxy leaves in it a body
  equal to the concatenation of the slices it wrote, in order, which is what the real
  writer received after what it held before; the recorded status is the argument of the
  first \<open>WriteHeader\<close>, or 200 when there was none. \<open>DumpResponseHandler\<close> logs that
  status and that body, and hands back the real writer with the same bytes.
\<close>

theorem RespProxyWriter_captures_writes:
  assumes "writer s = Real rw" and "logger s = Some c"
  shows "let p' = fold (proxy_op canon) ops (NewRespProxyWriter (Real rw)) in
     Body p' = written ops \<and>
     rw_body (ResponseWriter p') = rw_body rw @ written ops \<and>
     Code p' = first_status ops \<and>
     DumpResponseHandler render fieldKey (writes canon ops err) s =
       (err, s\<lparr>writer := Real (ResponseWriter p'),
               logger := Some (c @ [(fieldKey,
                 Str (render (first_status ops) (written ops) (SourceHeader p')))])\<rparr>)"
proof -
  let ?p = "NewRespProxyWriter (Real rw)"
  let ?p' = "fold (proxy_op canon) ops ?p"
  have fresh: "Body ?p = []" "ResponseWriter ?p = rw" "Code ?p = 200" "\<not> recorded ?p"
    by (simp_all add: NewRespProxyWriter_def)
  have body: "Body ?p' = written ops"
    by (simp add: proxy_run_Body fresh)
  have sent: "rw_body (ResponseWriter ?p') = rw_body rw @ written ops"
    by (simp add: proxy_run_rw_body fresh)
  have code: "Code ?p' = first_status ops"
    by (simp add: proxy_run_Code fresh first_status_default)
  have "DumpResponseHandler render fieldKey (writes canon ops err) s =
       (err, s\<lparr>writer := Real (ResponseWriter ?p'),
               logger := Some (c @ [(fieldKey,
                 Str (render (Code ?p') (Body ?p') (SourceHeader ?p')))])\<rparr>)"
    using assms
    by (simp add: DumpResponseHandler_def writes_def fold_apply_op_Proxy writer_after_def
        the_real_def UpdateContext_def Let_def)
  with body sent code show ?thesis
    by (simp add: Let_def)
qed

theorem RespProxyWriter_captures_writes_witness:
  "DumpResponseHandler (\<lambda>code body header. body) ''response''
     (writes (\<lambda>k. k) [Write ''ab'', WriteHeader 404, Write ''cd''] None) example_world =
   (None, example_world
      \<lparr>writer := Real \<lparr>rw_header = [], rw_status = Some 200, rw_sent_header = [], rw_body = ''abcd''\<rparr>,
       logger := Some [(''response'', Str ''abcd'')]\<rparr>)"
proof -
  have w: "writer example_world = Real example_writer" and l: "logger example_world = Some []"
    by (simp_all add: example_world_def)
  from RespProxyWriter_captures_writes [OF w l, of "\<lambda>k. k" "[Write ''ab'', WriteHeader 404, Write ''cd'']"
      "\<lambda>code body header. body" "''response''" None]
  show ?thesis
    unfolding example_run by (simp add: Let_def)
qed

text \<open>
  C3. For the chain built from the empty one by appending the stages \<open>s1 ... sn\<close> in
  order, \<open>Then h\<close> is \<open>s1 (s2 (... (sn h)))\<close>; for the empty chain it is \<open>h\<close>; and when every
  stage runs its own code before and after delegating, the code before runs in the
  order of registration and the code after in the reverse order.
\<close>

theorem Chain_Then_nests:
  "Then (fold (\<lambda>stage c. Append c stage) stages NewChain) h =
     foldr (\<lambda>stage next. stage next) stages h
   \<and> Then NewChain h = h
   \<and> Then (fold (\<lambda>stage c. Append c stage) (map around ps) NewChain) h s =
     fold (\<lambda>post x. post x) (rev (map snd ps)) (h (fold (\<lambda>pre x. pre x) (map fst ps) s))"
proof -
  have nest: "Then (fold (\<lambda>stage c. Append c stage) stages NewChain) h =
     foldr (\<lambda>stage next. stage next) stages h" for stages and h :: "'a \<Rightarrow> 'b"
    by (simp add: Then_def constructors_fold_Append NewChain_def)
  have "Then NewChain h = h"
    by (simp add: Then_def NewChain_def)
  moreover have "Then (fold (\<lambda>stage c. Append c stage) (map around ps) NewChain) h s =
     fold (\<lambda>post x. post x) (rev (map snd ps)) (h (fold (\<lambda>pre x. pre x) (map fst ps) s))"
    unfolding nest by (rule foldr_around)
  ultimately show ?thesis
    using nest [of stages h] by blast
qed

text \<open>
  Two stages around a final handler, each adding an event to a trace on the way in and
  on the way out.
\<close>

lemma Chain_order_example:
  "Then (Append (Append NewChain (around ((\<lambda>t. t @ [''in 1'']), (\<lambda>t. t @ [''out 1'']))))
                (around ((\<lambda>t. t @ [''in 2'']), (\<lambda>t. t @ [''out 2'']))))
        (\<lambda>t. t @ [''final'']) [] =
   [''in 1'', ''in 2'', ''final'', ''out 2'', ''out 1'']"
  by (simp add: Then_def Append_def NewChain_def around_def)

text \<open>
  C4 is left open. What the client receives when a later handler sets the deleted
  header and returns without \<open>Write\<close> or \<open>WriteHeader\<close> is decided by the proxy's own
  code (whether its \<open>Header()\<close> is the map of the real writer, and when the deletions
  are applied), which is not among the sources, and the spec does not say. The lemmas
  on the deletion of a header above show both cases in the model used here.
\<close>

text \<open>
  C5. On a request without the header, \<open>RequestIDHandler\<close> generates an identifier and
  adds it to the logger under the field key, as the claim says. It sets the identifier
  on the header of the request, not of the response: the response that reaches the client
  has no header \<open>Request-Id\<close>.
\<close>

theorem RequestIDHandler_sets_request_header:
  "RequestIDHandler (\<lambda>k. k) example_xid ''req_id'' ''Request-Id''
     (writes (\<lambda>k. k) [Write ''ok''] None) example_world =
   (None, example_world
      \<lparr>writer := Real \<lparr>rw_header = [], rw_status = Some 200, rw_sent_header = [], rw_body = ''ok''\<rparr>,
       req_header := [(''Request-Id'', [''9m4e2mr0ui3e8a215n4g''])],
       logger := Some [(''req_id'', Str ''9m4e2mr0ui3e8a215n4g'')],
       xid_counter := 1\<rparr>)"
  by (simp add: RequestIDHandler_def IDFromRequest_def example_xid_def example_world_def
      example_writer_def writes_def apply_op_def real_Write_def real_WriteHeader_def
      Header_Get_def Header_Set_def UpdateContext_def Let_def)

text \<open>
  On every request the handler resolves the identifier, adds it to the logger and to the
  headers of the request as configured, and delegates with the writer it was given,
  unchanged.
\<close>

lemma RequestIDHandler_resolves:
  "RequestIDHandler canon xid fieldKey headerName next s =
     (let found = IDFromRequest canon xid (req_header s) headerName;
          rid = (case found of Some rid \<Rightarrow> rid | None \<Rightarrow> xid_New xid (xid_counter s))
      in next (s\<lparr>xid_counter := (if found = None then Suc (xid_counter s) else xid_counter s),
                 logger := (if fieldKey \<noteq> [] then
                              map_option (\<lambda>c. c @ [(fieldKey, Str (xid_String xid rid))]) (logger s)
                            else logger s),
                 req_header := (if headerName \<noteq> [] then
                                  Header_Set canon (req_header s) headerName (xid_String xid rid)
                                else req_header s)\<rparr>))"
  by (cases "IDFromRequest canon xid (req_header s) headerName")
     (simp_all add: RequestIDHandler_def UpdateContext_def Let_def)

text \<open>
  C6. Wrapping a wrapped writer gives the same proxy. \<open>ResponseHeaderHandler\<close> and
  \<open>DumpResponseHandler\<close>, one around the other, each wrap the writer they are given;
  both read the one proxy that the handler below them wrote to: the dump logs its status,
  body and headers, and the typed field is read from the same headers.
\<close>

theorem NewRespProxyWriter_idempotent:
  "NewRespProxyWriter (Proxy (NewRespProxyWriter w)) = NewRespProxyWriter w
   \<and> (let p' = fold (proxy_op canon) ops (NewRespProxyWriter (writer s));
           v = Header_Get canon (SourceHeader p') headerName
       in logger (snd (ResponseHeaderHandler canon strconv headerName valType
                    (DumpResponseHandler render fieldKey (writes canon ops err)) s)) =
          map_option
            (\<lambda>c. (c @ [(fieldKey, Str (render (Code p') (Body p') (SourceHeader p')))]) @
                 (if v \<noteq> [] then [header_field strconv headerName valType v] else []))
            (logger s))"
proof -
  let ?nw = "NewRespProxyWriter (writer s)"
  let ?p' = "fold (proxy_op canon) ops ?nw"
  have inner: "DumpResponseHandler render fieldKey (writes canon ops err) (s\<lparr>writer := Proxy ?nw\<rparr>) =
      (err, (UpdateContext
              (\<lambda>c. c @ [(fieldKey, Str (render (Code ?p') (Body ?p') (SourceHeader ?p')))]) s)
              \<lparr>writer := Proxy ?p'\<rparr>)"
    by (simp add: DumpResponseHandler_def writes_def fold_apply_op_Proxy writer_after_def
        UpdateContext_def Let_def)
  have "logger (snd (ResponseHeaderHandler canon strconv headerName valType
                    (DumpResponseHandler render fieldKey (writes canon ops err)) s)) =
        map_option
            (\<lambda>c. (c @ [(fieldKey, Str (render (Code ?p') (Body ?p') (SourceHeader ?p')))]) @
                 (if Header_Get canon (SourceHeader ?p') headerName \<noteq> []
                  then [header_field strconv headerName valType
                          (Header_Get canon (SourceHeader ?p') headerName)]
                  else []))
            (logger s)"
    by (cases "logger s") (simp_all add: ResponseHeaderHandler_def inner UpdateContext_def Let_def)
  then show ?thesis
    by (simp add: Let_def)
qed

text \<open>
  C7. When the dumped text does not split into exactly two parts at the blank line
  (CR LF CR LF), or its second part does not parse as form data, \<open>hashPostRequest\<close>
  returns the text as it is, writes nothing to the store, and has no error to raise;
  the request-dump stage then logs the text unchanged.
\<close>

theorem hashPostRequest_fail_open:
  assumes "length (strings_Split req CRLFCRLF) \<noteq> 2 \<or>
           snd (url_ParseQuery (strings_Split req CRLFCRLF ! 1)) \<noteq> None"
  shows "hashPostRequest MD5 range_order hs req = (req, hs) \<and>
         DumpRequestHandler_msg MD5 range_order hs (Inr req) = (req, hs)"
proof -
  from assms have "hashPostRequest MD5 range_order hs req = (req, hs)"
    by (auto simp: hashPostRequest_def Let_def split: prod.splits)
  then show ?thesis
    by (simp add: DumpRequestHandler_msg_def)
qed

theorem hashPostRequest_fail_open_witness:
  "hashPostRequest (\<lambda>v. ''h'') rev (Some []) ''GET / HTTP/1.1'' = (''GET / HTTP/1.1'', Some [])
   \<and> DumpRequestHandler_msg (\<lambda>v. ''h'') rev (Some [])
        (Inr (''POST / HTTP/1.1'' @ CRLFCRLF @ ''a=%zz'')) =
       (''POST / HTTP/1.1'' @ CRLFCRLF @ ''a=%zz'', Some [])"
proof -
  have "length (strings_Split ''GET / HTTP/1.1'' CRLFCRLF) \<noteq> 2"
    by code_simp
  then have a: "length (strings_Split ''GET / HTTP/1.1'' CRLFCRLF) \<noteq> 2 \<or>
      snd (url_ParseQuery (strings_Split ''GET / HTTP/1.1'' CRLFCRLF ! 1)) \<noteq> None"
    by (rule disjI1)
  have "snd (url_ParseQuery (strings_Split (''POST / HTTP/1.1'' @ CRLFCRLF @ ''a=%zz'') CRLFCRLF ! 1))
          \<noteq> None"
    by code_simp
  then have b: "length (strings_Split (''POST / HTTP/1.1'' @ CRLFCRLF @ ''a=%zz'') CRLFCRLF) \<noteq> 2 \<or>
      snd (url_ParseQuery (strings_Split (''POST / HTTP/1.1'' @ CRLFCRLF @ ''a=%zz'') CRLFCRLF ! 1))
        \<noteq> None"
    by (rule disjI2)
  from hashPostRequest_fail_open [OF a] hashPostRequest_fail_open [OF b]
  show ?thesis by blast
qed

text \<open>
  C8. When the handler below returns and the captured headers hold a non-empty value
  \<open>v\<close> under the header name, and a logger is installed: for a kind among \<open>bool\<close>, \<open>int\<close>,
  \<open>uint\<close>, \<open>float\<close> and \<open>str\<close>, the stage adds one field under the header name, holding the
  parsed value with its type when \<open>v\<close> parses as that kind and the string \<open>v\<close> otherwise;
  the error it returns is the one the handler below returned.
\<close>

theorem ResponseHeaderHandler_typed_field:
  assumes delegate: "next (s\<lparr>writer := Proxy (NewRespProxyWriter (writer s))\<rparr>) = (err, s')"
    and observed: "v = Header_Get canon (SourceHeader (NewRespProxyWriter (writer s'))) headerName"
      "v \<noteq> []"
    and kind: "valType \<in> {''bool'', ''int'', ''uint'', ''float'', ''str''}"
    and installed: "logger s' = Some c"
  shows "fst (ResponseHeaderHandler canon strconv headerName valType next s) = err \<and>
     logger (snd (ResponseHeaderHandler canon strconv headerName valType next s)) =
       Some (c @ [(headerName,
         if valType = ''bool'' then
           (case ParseBool strconv v of Some val \<Rightarrow> Bool val | None \<Rightarrow> Str v)
         else if valType = ''int'' then
           (case ParseInt strconv v of Some val \<Rightarrow> Int64 val | None \<Rightarrow> Str v)
         else if valType = ''uint'' then
           (case ParseUint strconv v of Some val \<Rightarrow> Uint64 val | None \<Rightarrow> Str v)
         else if valType = ''float'' then
           (case ParseFloat strconv v of Some val \<Rightarrow> Float64 val | None \<Rightarrow> Str v)
         else Str v)])"
proof -
  have field: "header_field strconv headerName valType v =
      (headerName,
         if valType = ''bool'' then
           (case ParseBool strconv v of Some val \<Rightarrow> Bool val | None \<Rightarrow> Str v)
         else if valType = ''int'' then
           (case ParseInt strconv v of Some val \<Rightarrow> Int64 val | None \<Rightarrow> Str v)
         else if valType = ''uint'' then
           (case ParseUint strconv v of Some val \<Rightarrow> Uint64 val | None \<Rightarrow> Str v)
         else if valType = ''float'' then
           (case ParseFloat strconv v of Some val \<Rightarrow> Float64 val | None \<Rightarrow> Str v)
         else Str v)"
    by (simp add: header_field_def typed_field_def split: option.splits)
  have "ResponseHeaderHandler canon strconv headerName valType next s =
      (err, (UpdateContext (\<lambda>c. c @ [header_field strconv headerName valType v]) s')
              \<lparr>writer := writer_after (writer s) (writer s')\<rparr>)"
    using delegate observed(2) unfolding observed(1)
    by (simp add: ResponseHeaderHandler_def Let_def)
  then show ?thesis
    using installed by (simp add: UpdateContext_def field)
qed

theorem ResponseHeaderHandler_typed_field_witness:
  "logger (snd (ResponseHeaderHandler (\<lambda>k. k) example_strconv ''Cost'' ''float''
       (writes (\<lambda>k. k) [SetHeader ''Cost'' ''3.14'', Write ''ok''] None) example_world)) =
     Some [(''Cost'', Float64 (314, - 2))]
   \<and> logger (snd (ResponseHeaderHandler (\<lambda>k. k) example_strconv ''Cost'' ''float''
       (writes (\<lambda>k. k) [SetHeader ''Cost'' ''notanumber'', Write ''ok''] None) example_world)) =
     Some [(''Cost'', Str ''notanumber'')]"
proof -
  have run: "writes (\<lambda>k. k) [SetHeader ''Cost'' x, Write ''ok''] None
        (example_world\<lparr>writer := Proxy (NewRespProxyWriter (writer example_world))\<rparr>) =
      (None, example_world\<lparr>writer := Proxy
         \<lparr>ResponseWriter = \<lparr>rw_header = [(''Cost'', [x])], rw_status = Some 200,
                             rw_sent_header = [(''Cost'', [x])], rw_body = ''ok''\<rparr>,
          Code = 200, Body = ''ok'', SourceHeader = [(''Cost'', [x])], recorded = False,
          flushed = True, delHeaders = []\<rparr>\<rparr>)" for x
    by (simp add: writes_def example_world_def example_writer_def NewRespProxyWriter_def
        apply_op_def proxy_Write_def proxy_flush_def real_Write_def real_WriteHeader_def
        Header_Set_def Let_def)
  have kind: "''float'' \<in> {''bool'', ''int'', ''uint'', ''float'', ''str''}"
    by simp
  have a: "logger (snd (ResponseHeaderHandler (\<lambda>k. k) example_strconv ''Cost'' ''float''
       (writes (\<lambda>k. k) [SetHeader ''Cost'' ''3.14'', Write ''ok''] None) example_world)) =
     Some [(''Cost'', Float64 (314, - 2))]"
    using ResponseHeaderHandler_typed_field [of
        "writes (\<lambda>k. k) [SetHeader ''Cost'' ''3.14'', Write ''ok''] None" example_world _ _ _
        "\<lambda>k. k" "''Cost''" "''float''" "[]" example_strconv, OF run refl _ kind]
    by (simp add: Header_Get_def example_world_def example_strconv_def)
  have b: "logger (snd (ResponseHeaderHandler (\<lambda>k. k) example_strconv ''Cost'' ''float''
       (writes (\<lambda>k. k) [SetHeader ''Cost'' ''notanumber'', Write ''ok''] None) example_world)) =
     Some [(''Cost'', Str ''notanumber'')]"
    using ResponseHeaderHandler_typed_field [of
        "writes (\<lambda>k. k) [SetHeader ''Cost'' ''notanumber'', Write ''ok''] None" example_world _ _ _
        "\<lambda>k. k" "''Cost''" "''float''" "[]" example_strconv, OF run refl _ kind]
    by (simp add: Header_Get_def example_world_def example_strconv_def)
  from a b show ?thesis by (rule conjI)
qed

text \<open>
  C9 is not stated here. It speaks of two requests running at the same time and of the
  logger's buffer, which \<open>zerolog\<close> copies in \<open>With\<close>; the model has one request at a time
  and values without sharing, so every statement of isolation would hold by the way the
  model is written.
\<close>



end
